theory Spec2Isabelle
  imports Main "HOL-Library.Word" "HOL-Library.Char_ord"
begin

unbundle bit_operations_syntax

section \<open>The output stream\<close>

text \<open>
  tinyformat.h drives a \<^verbatim>\<open>std::ostream\<close>. The stream is the C++ standard library's, not
  this repository's; the record below holds the part of it the header reads and writes: the
  field width, the precision, the fill character, the format flags, and the characters
  written so far. The stream is one that never fails (a \<^verbatim>\<open>std::ostringstream\<close>).
  \<^verbatim>\<open>std::streamsize\<close> values are mathematical integers: the header only stores, compares
  and copies them.
\<close>

datatype fmtflags =
    ios_left | ios_right | ios_internal
  | ios_dec | ios_oct | ios_hex
  | ios_fixed | ios_scientific
  | ios_showbase | ios_showpoint | ios_showpos | ios_uppercase
  | ios_boolalpha | ios_skipws | ios_unitbuf

definition adjustfield :: "fmtflags set" where
  "adjustfield = {ios_left, ios_right, ios_internal}"

definition basefield :: "fmtflags set" where
  "basefield = {ios_dec, ios_oct, ios_hex}"

definition floatfield :: "fmtflags set" where
  "floatfield = {ios_fixed, ios_scientific}"

record ostream =
  width :: int
  precision :: int
  fill :: char
  flags :: "fmtflags set"
  written :: string

text \<open>\<^verbatim>\<open>out.setf(f)\<close>, \<^verbatim>\<open>out.setf(f, mask)\<close> and \<^verbatim>\<open>out.unsetf(mask)\<close>.\<close>

definition setf :: "fmtflags set \<Rightarrow> ostream \<Rightarrow> ostream" where
  "setf f out = out\<lparr>flags := flags out \<union> f\<rparr>"

definition setf_mask :: "fmtflags set \<Rightarrow> fmtflags set \<Rightarrow> ostream \<Rightarrow> ostream" where
  "setf_mask f msk out = out\<lparr>flags := (flags out - msk) \<union> (f \<inter> msk)\<rparr>"

definition unsetf :: "fmtflags set \<Rightarrow> ostream \<Rightarrow> ostream" where
  "unsetf msk out = out\<lparr>flags := flags out - msk\<rparr>"

text \<open>
  \<^verbatim>\<open>out.write(p, n)\<close>: unformatted output of \<open>n\<close> characters from the bytes \<open>p\<close>
  points to. It neither pads nor touches the width. A count that is not positive writes
  nothing.
\<close>

definition ostream_write :: "string \<Rightarrow> int \<Rightarrow> ostream \<Rightarrow> ostream" where
  "ostream_write p n out = out\<lparr>written := written out @ take (nat n) p\<rparr>"

text \<open>
  Formatted insertion of characters and strings (\<^verbatim>\<open>out << c\<close>, \<^verbatim>\<open>out << str\<close>): the
  text is padded with the fill character up to the width, after the text when
  \<^verbatim>\<open>(flags & adjustfield) == left\<close> and before it otherwise, and the width is reset to 0.
\<close>

definition padding :: "ostream \<Rightarrow> nat \<Rightarrow> string" where
  "padding out n = replicate (nat (width out) - n) (fill out)"

definition insert_string :: "string \<Rightarrow> ostream \<Rightarrow> ostream" where
  "insert_string str out =
     (let pad = padding out (length str);
          txt = (if flags out \<inter> adjustfield = {ios_left} then str @ pad else pad @ str)
      in out\<lparr>written := written out @ txt, width := 0\<rparr>)"

definition insert_char :: "char \<Rightarrow> ostream \<Rightarrow> ostream" where
  "insert_char ch out = insert_string [ch] out"

text \<open>
  Formatted insertion of an \<^verbatim>\<open>int\<close> (\<^verbatim>\<open>out << i\<close>), as the standard's \<^verbatim>\<open>num_put\<close>
  defines it through printf conversions: octal and hexadecimal print the value converted to
  \<^verbatim>\<open>unsigned int\<close>, with the base prefix under \<^verbatim>\<open>showbase\<close> when the value is not zero;
  decimal prints the sign, or \<open>+\<close> under \<^verbatim>\<open>showpos\<close>. Padding goes after the text under
  \<^verbatim>\<open>left\<close>, after the sign or the \<open>0x\<close> prefix under \<^verbatim>\<open>internal\<close>, and before the text
  otherwise. An \<^verbatim>\<open>int\<close> has 32 bits.
\<close>

definition digit_char :: "bool \<Rightarrow> nat \<Rightarrow> char" where
  "digit_char upper d = (if upper then ''0123456789ABCDEF'' else ''0123456789abcdef'') ! d"

function digits :: "nat \<Rightarrow> bool \<Rightarrow> nat \<Rightarrow> string" where
  "digits base upper n =
     (if base < 2 \<or> n < base then [digit_char upper n]
      else digits base upper (n div base) @ [digit_char upper (n mod base)])"
  by pat_completeness auto
termination
  by (relation "measure (\<lambda>(base, upper, n). n)") auto

declare digits.simps [simp del]

definition int_prefix :: "fmtflags set \<Rightarrow> 32 word \<Rightarrow> string" where
  "int_prefix fl v =
     (if fl \<inter> basefield = {ios_oct} then (if ios_showbase \<in> fl \<and> v \<noteq> 0 then ''0'' else [])
      else if fl \<inter> basefield = {ios_hex} then
        (if ios_showbase \<in> fl \<and> v \<noteq> 0 then (if ios_uppercase \<in> fl then ''0X'' else ''0x'') else [])
      else if sint v < 0 then ''-''
      else if ios_showpos \<in> fl then ''+'' else [])"

definition int_digits :: "fmtflags set \<Rightarrow> 32 word \<Rightarrow> string" where
  "int_digits fl v =
     (if fl \<inter> basefield = {ios_oct} then digits 8 False (unat v)
      else if fl \<inter> basefield = {ios_hex} then digits 16 (ios_uppercase \<in> fl) (unat v)
      else digits 10 False (nat \<bar>sint v\<bar>))"

definition insert_int :: "32 word \<Rightarrow> ostream \<Rightarrow> ostream" where
  "insert_int v out =
     (let pre = int_prefix (flags out) v;
          ds = int_digits (flags out) v;
          pad = padding out (length pre + length ds);
          txt = (if flags out \<inter> adjustfield = {ios_left} then pre @ ds @ pad
                 else if flags out \<inter> adjustfield = {ios_internal}
                        \<and> pre \<in> {''-'', ''+'', ''0x'', ''0X''} then pre @ pad @ ds
                 else pad @ pre @ ds)
      in out\<lparr>written := written out @ txt, width := 0\<rparr>)"

text \<open>
  Formatted insertion of a \<^verbatim>\<open>const void*\<close>. The text is implementation-defined; this is
  what GNU libstdc++ prints: the address in lower-case hexadecimal with the base shown.
\<close>

definition insert_pointer :: "nat \<Rightarrow> ostream \<Rightarrow> ostream" where
  "insert_pointer p out =
     (let pre = (if p \<noteq> 0 then ''0x'' else []);
          ds = digits 16 False p;
          pad = padding out (length pre + length ds);
          txt = (if flags out \<inter> adjustfield = {ios_left} then pre @ ds @ pad
                 else if flags out \<inter> adjustfield = {ios_internal} \<and> pre \<noteq> [] then pre @ pad @ ds
                 else pad @ pre @ ds)
      in out\<lparr>written := written out @ txt, width := 0\<rparr>)"

text \<open>
  A default-constructed \<^verbatim>\<open>std::ostringstream\<close>, and \<^verbatim>\<open>tmp.copyfmt(out)\<close>, which copies
  the flags, width, precision and fill of \<open>out\<close> and leaves the characters of \<open>tmp\<close> alone.
\<close>

definition ostringstream :: ostream where
  "ostringstream =
     \<lparr>width = 0, precision = 6, fill = CHR '' '', flags = {ios_skipws, ios_dec}, written = []\<rparr>"

definition copyfmt :: "ostream \<Rightarrow> ostream \<Rightarrow> ostream" where
  "copyfmt rhs tmp = rhs\<lparr>written := written tmp\<rparr>"

section \<open>Format strings, the error hook, and how a call ends\<close>

text \<open>
  A \<^verbatim>\<open>const char*\<close> into the format string is an index into the string \<open>s\<close>; the
  buffer holds the characters of \<open>s\<close> and then the terminating NUL. No function below
  reads past that NUL.
\<close>

abbreviation NUL :: char where
  "NUL \<equiv> CHR 0x00"

definition deref :: "string \<Rightarrow> nat \<Rightarrow> char" where
  "deref s c = (if c < length s then s ! c else NUL)"

definition isdigit :: "char \<Rightarrow> bool" where
  "isdigit ch = (CHR ''0'' \<le> ch \<and> ch \<le> CHR ''9'')"

definition isLengthModifier :: "char \<Rightarrow> bool" where
  "isLengthModifier ch =
     (ch = CHR ''l'' \<or> ch = CHR ''h'' \<or> ch = CHR ''L'' \<or>
      ch = CHR ''j'' \<or> ch = CHR ''z'' \<or> ch = CHR ''t'')"

definition isLetter :: "char \<Rightarrow> bool" where
  "isLetter ch = ((CHR ''A'' \<le> ch \<and> ch \<le> CHR ''Z'') \<or> (CHR ''a'' \<le> ch \<and> ch \<le> CHR ''z''))"

text \<open>
  \<^verbatim>\<open>TINYFORMAT_ERROR(reason)\<close> is a macro the user may define. By default it is
  \<^verbatim>\<open>assert(0 && reason)\<close>, which aborts, or does nothing when assertions are compiled
  out; a user's handler may throw or may log and return. So the hook either returns to
  the code after it (\<open>hook_returns\<close>) or leaves the call (\<open>hook_leaves\<close>). The machine is
  the stream together with the reasons the hook has been given, in order.
\<close>

datatype hook = hook_returns | hook_leaves

record machine =
  stream :: ostream
  reasons :: "string list"

text \<open>
  A call returns a value, or is left by the hook, or stops at a failed \<^verbatim>\<open>assert\<close>, or
  runs into undefined behaviour (signed overflow, a read before the start of the buffer).
  Each way of ending carries the machine as it is at that moment.
\<close>

datatype 'a exit = Returned machine 'a | Raised machine | Aborted machine | Undefined machine

definition andThen :: "'a exit \<Rightarrow> (machine \<Rightarrow> 'a \<Rightarrow> 'b exit) \<Rightarrow> 'b exit" where
  "andThen x f =
     (case x of Returned m a \<Rightarrow> f m a | Raised m \<Rightarrow> Raised m
      | Aborted m \<Rightarrow> Aborted m | Undefined m \<Rightarrow> Undefined m)"

definition TINYFORMAT_ERROR :: "hook \<Rightarrow> string \<Rightarrow> machine \<Rightarrow> unit exit" where
  "TINYFORMAT_ERROR h reason m =
     (case h of hook_returns \<Rightarrow> Returned (m\<lparr>reasons := reasons m @ [reason]\<rparr>) ()
      | hook_leaves \<Rightarrow> Raised (m\<lparr>reasons := reasons m @ [reason]\<rparr>))"

definition on_stream :: "(ostream \<Rightarrow> ostream) \<Rightarrow> machine \<Rightarrow> machine" where
  "on_stream f m = m\<lparr>stream := f (stream m)\<rparr>"

section \<open>detail::parseIntAndAdvance\<close>

text \<open>
  The loop computes in \<^verbatim>\<open>int\<close>; a value past \<^verbatim>\<open>INT_MAX\<close> is signed overflow, which
  is undefined: \<open>None\<close>. The result is the integer and the position one past its digits.
\<close>

definition INT_MAX :: int where
  "INT_MAX = 2147483647"

function parseIntAndAdvance_for :: "string \<Rightarrow> int \<Rightarrow> nat \<Rightarrow> (int \<times> nat) option" where
  "parseIntAndAdvance_for s i c =
     (if isdigit (deref s c) then
        (let i' = 10 * i + (int (of_char (deref s c)) - int (of_char CHR ''0''))
         in if INT_MAX < i' then None else parseIntAndAdvance_for s i' (c + 1))
      else Some (i, c))"
  by pat_completeness auto
termination
  by (relation "measure (\<lambda>(s, i, c). length s - c)")
     (auto simp: deref_def isdigit_def split: if_splits)

declare parseIntAndAdvance_for.simps [simp del]

definition parseIntAndAdvance :: "string \<Rightarrow> nat \<Rightarrow> (int \<times> nat) option" where
  "parseIntAndAdvance s c = parseIntAndAdvance_for s 0 c"

section \<open>detail::streamStateFromFormat\<close>

text \<open>The flags for features the stream state cannot hold (\<^verbatim>\<open>enum ExtraFormatFlags\<close>).\<close>

definition Flag_TruncateToPrecision :: "32 word" where
  "Flag_TruncateToPrecision = push_bit 0 1"

definition Flag_SpacePadPositive :: "32 word" where
  "Flag_SpacePadPositive = push_bit 1 1"

text \<open>Reset stream state to defaults.\<close>

definition resetState :: "ostream \<Rightarrow> ostream" where
  "resetState out =
     unsetf (adjustfield \<union> basefield \<union> floatfield \<union>
             {ios_showbase, ios_showpoint, ios_showpos, ios_uppercase})
       (out\<lparr>width := 0, precision := 6, fill := CHR '' ''\<rparr>)"

text \<open>
  1) Parse flags: the \<^verbatim>\<open>for(;; ++c) switch(*c)\<close> loop. \<open>switchFlag\<close> is the switch: a
  case that matches changes the stream and the extra flags and continues the loop
  (\<open>Some\<close>); when no case matches the loop is left (\<open>None\<close>).
\<close>

definition switchFlag :: "char \<Rightarrow> ostream \<Rightarrow> 32 word \<Rightarrow> (ostream \<times> 32 word) option" where
  "switchFlag ch out extraFlags =
     (if ch = CHR ''#'' then Some (setf {ios_showpoint, ios_showbase} out, extraFlags)
      else if ch = CHR ''0'' then
        Some (if ios_left \<notin> flags out
              then setf_mask {ios_internal} adjustfield (out\<lparr>fill := CHR ''0''\<rparr>) else out,
              extraFlags)
      else if ch = CHR ''-'' then
        Some (setf_mask {ios_left} adjustfield (out\<lparr>fill := CHR '' ''\<rparr>), extraFlags)
      else if ch = CHR '' '' then
        Some (out, if ios_showpos \<notin> flags out
                   then extraFlags OR Flag_SpacePadPositive else extraFlags)
      else if ch = CHR ''+'' then
        Some (setf {ios_showpos} out, extraFlags AND NOT Flag_SpacePadPositive)
      else None)"

function parseFlags :: "string \<Rightarrow> nat \<Rightarrow> ostream \<Rightarrow> 32 word \<Rightarrow> nat \<times> ostream \<times> 32 word" where
  "parseFlags s c out extraFlags =
     (case switchFlag (deref s c) out extraFlags of
        Some (out', extraFlags') \<Rightarrow> parseFlags s (c + 1) out' extraFlags'
      | None \<Rightarrow> (c, out, extraFlags))"
  by pat_completeness auto
termination
  by (relation "measure (\<lambda>(s, c, out, extraFlags). length s - c)")
     (auto simp: deref_def switchFlag_def split: if_splits)

declare parseFlags.simps [simp del]

text \<open>2) Parse width. The result is the position and \<^verbatim>\<open>widthSet\<close>.\<close>

definition parseWidth :: "hook \<Rightarrow> string \<Rightarrow> nat \<Rightarrow> machine \<Rightarrow> (nat \<times> bool) exit" where
  "parseWidth h s c m =
     andThen
       (if isdigit (deref s c) then
          (case parseIntAndAdvance s c of
             None \<Rightarrow> Undefined m
           | Some (i, c') \<Rightarrow> Returned (on_stream (\<lambda>out. out\<lparr>width := i\<rparr>) m) (c', True))
        else Returned m (c, False))
       (\<lambda>m (c, widthSet).
          if deref s c = CHR ''*'' then
            andThen (TINYFORMAT_ERROR h ''tinyformat: variable field widths not supported'' m)
              (\<lambda>m u. Returned m (c, widthSet))
          else Returned m (c, widthSet))"

text \<open>3) Parse precision. The result is the position and \<^verbatim>\<open>precisionSet\<close>.\<close>

definition parsePrecision :: "hook \<Rightarrow> string \<Rightarrow> nat \<Rightarrow> machine \<Rightarrow> (nat \<times> bool) exit" where
  "parsePrecision h s c m =
     (if deref s c = CHR ''.'' then
        andThen
          (if deref s (c + 1) = CHR ''*''
           then TINYFORMAT_ERROR h ''tinyformat: variable precision not supported'' m
           else Returned m ())
          (\<lambda>m u.
             if isdigit (deref s (c + 1)) then
               (case parseIntAndAdvance s (c + 1) of
                  None \<Rightarrow> Undefined m
                | Some (i, c') \<Rightarrow> Returned (on_stream (\<lambda>out. out\<lparr>precision := i\<rparr>) m) (c', True))
             else if deref s (c + 1) = CHR ''-'' then
               (case parseIntAndAdvance s (c + 2) of
                  None \<Rightarrow> Undefined m
                | Some (i, c') \<Rightarrow> Returned (on_stream (\<lambda>out. out\<lparr>precision := 0\<rparr>) m) (c', True))
             else Returned (on_stream (\<lambda>out. out\<lparr>precision := 0\<rparr>) m) (c + 1, True))
      else Returned m (c, False))"

text \<open>4) Ignore any C99 length modifier.\<close>

function skipLengthModifier :: "string \<Rightarrow> nat \<Rightarrow> nat" where
  "skipLengthModifier s c =
     (if isLengthModifier (deref s c) then skipLengthModifier s (c + 1) else c)"
  by pat_completeness auto
termination
  by (relation "measure (\<lambda>(s, c). length s - c)")
     (auto simp: deref_def isLengthModifier_def split: if_splits)

declare skipLengthModifier.simps [simp del]

text \<open>
  5) The conversion specifier character and the \<^verbatim>\<open>switch(type)\<close> on it, with its
  fall-through from \<open>X\<close>, \<open>E\<close>, \<open>F\<close> and \<open>G\<close>. The result is the extra flags and
  \<^verbatim>\<open>intConversion\<close>.
\<close>

definition conversionType :: "string \<Rightarrow> nat \<Rightarrow> nat \<Rightarrow> char" where
  "conversionType s c fmtEnd = (if c < fmtEnd then deref s c else CHR ''s'')"

definition switchType ::
  "hook \<Rightarrow> char \<Rightarrow> bool \<Rightarrow> 32 word \<Rightarrow> machine \<Rightarrow> (32 word \<times> bool) exit" where
  "switchType h type precisionSet extraFlags m =
     (if type = CHR ''u'' \<or> type = CHR ''d'' \<or> type = CHR ''i'' then
        Returned (on_stream (setf_mask {ios_dec} basefield) m) (extraFlags, True)
      else if type = CHR ''o'' then
        Returned (on_stream (setf_mask {ios_oct} basefield) m) (extraFlags, True)
      else if type = CHR ''X'' then
        Returned (on_stream (setf_mask {ios_hex} basefield \<circ> setf {ios_uppercase}) m) (extraFlags, True)
      else if type = CHR ''x'' \<or> type = CHR ''p'' then
        Returned (on_stream (setf_mask {ios_hex} basefield) m) (extraFlags, True)
      else if type = CHR ''E'' then
        Returned (on_stream (setf_mask {ios_dec} basefield \<circ> setf_mask {ios_scientific} floatfield
                          \<circ> setf {ios_uppercase}) m) (extraFlags, False)
      else if type = CHR ''e'' then
        Returned (on_stream (setf_mask {ios_dec} basefield \<circ> setf_mask {ios_scientific} floatfield) m)
          (extraFlags, False)
      else if type = CHR ''F'' then
        Returned (on_stream (setf_mask {ios_fixed} floatfield \<circ> setf {ios_uppercase}) m) (extraFlags, False)
      else if type = CHR ''f'' then
        Returned (on_stream (setf_mask {ios_fixed} floatfield) m) (extraFlags, False)
      else if type = CHR ''G'' then
        Returned (on_stream (unsetf floatfield \<circ> setf_mask {ios_dec} basefield \<circ> setf {ios_uppercase}) m)
          (extraFlags, False)
      else if type = CHR ''g'' then
        Returned (on_stream (unsetf floatfield \<circ> setf_mask {ios_dec} basefield) m) (extraFlags, False)
      else if type = CHR ''a'' \<or> type = CHR ''A'' then Returned m (extraFlags, False)
      else if type = CHR ''c'' then Returned m (extraFlags, False)
      else if type = CHR ''s'' then
        Returned m (if precisionSet then extraFlags OR Flag_TruncateToPrecision else extraFlags, False)
      else if type = CHR ''n'' then
        andThen (TINYFORMAT_ERROR h ''tinyformat: %n conversion spec not supported'' m)
          (\<lambda>m u. Returned m (extraFlags, False))
      else Returned m (extraFlags, False))"

text \<open>
  The fix-up for an integer conversion with a precision and no width, applied to the
  stream.
\<close>

definition precisionAsWidth :: "ostream \<Rightarrow> ostream" where
  "precisionAsWidth out =
     (setf_mask {ios_internal} adjustfield (out\<lparr>width := precision out\<rparr>))\<lparr>fill := CHR ''0''\<rparr>"

text \<open>
  The whole function. It returns the extra flags; the last step is
  \<^verbatim>\<open>assert(c <= fmtEnd)\<close>.
\<close>

definition streamStateFromFormat ::
  "hook \<Rightarrow> string \<Rightarrow> nat \<Rightarrow> nat \<Rightarrow> machine \<Rightarrow> (32 word) exit" where
  "streamStateFromFormat h s fmtStart fmtEnd m =
     (case parseFlags s fmtStart (resetState (stream m)) 0 of (c, out1, extraFlags) \<Rightarrow>
        andThen (parseWidth h s c (m\<lparr>stream := out1\<rparr>)) (\<lambda>m (c, widthSet).
        andThen (parsePrecision h s c m) (\<lambda>m (c, precisionSet).
        let c = skipLengthModifier s c in
        andThen (switchType h (conversionType s c fmtEnd) precisionSet extraFlags m)
          (\<lambda>m (extraFlags, intConversion).
             let m = (if intConversion \<and> precisionSet \<and> \<not> widthSet
                      then on_stream precisionAsWidth m else m)
             in if c \<le> fmtEnd then Returned m extraFlags else Aborted m))))"

section \<open>detail::printFormatStringLiteral and detail::findFormatSpecEnd\<close>

text \<open>
  Print the literal part of the format string and return the position of the next format
  spec. \<open>fmt\<close> is the start of the pending literal section and \<open>c\<close> the scanning position.
  After \<open>%%\<close> the pending section starts at the second \<open>%\<close>, which is so written with
  the next section.
\<close>

function printFormatStringLiteral_for :: "string \<Rightarrow> nat \<Rightarrow> nat \<Rightarrow> ostream \<Rightarrow> ostream \<times> nat" where
  "printFormatStringLiteral_for s fmt c out =
     (if deref s c = NUL then (ostream_write (drop fmt s) (int c - int fmt) out, c)
      else if deref s c = CHR ''%'' then
        (let out' = ostream_write (drop fmt s) (int c - int fmt) out
         in if deref s (c + 1) \<noteq> CHR ''%'' then (out', c + 1)
            else printFormatStringLiteral_for s (c + 1) (c + 2) out')
      else printFormatStringLiteral_for s fmt (c + 1) out)"
  by pat_completeness auto
termination
  by (relation "measure (\<lambda>(s, fmt, c, out). length s - c)")
     (auto simp: deref_def split: if_splits)

declare printFormatStringLiteral_for.simps [simp del]

definition printFormatStringLiteral :: "string \<Rightarrow> nat \<Rightarrow> ostream \<Rightarrow> ostream \<times> nat" where
  "printFormatStringLiteral s fmt out = printFormatStringLiteral_for s fmt fmt out"

text \<open>
  Skip to the end of the format spec. The loop either returns from inside, one past a
  letter that is no length modifier (\<open>True\<close>), or runs to the NUL (\<open>False\<close>).
\<close>

function findFormatSpecEnd_for :: "string \<Rightarrow> nat \<Rightarrow> bool \<times> nat" where
  "findFormatSpecEnd_for s c =
     (if deref s c = NUL then (False, c)
      else if isLengthModifier (deref s c) then findFormatSpecEnd_for s (c + 1)
      else if isLetter (deref s c) then (True, c + 1)
      else findFormatSpecEnd_for s (c + 1))"
  by pat_completeness auto
termination
  by (relation "measure (\<lambda>(s, c). length s - c)")
     (auto simp: deref_def split: if_splits)

declare findFormatSpecEnd_for.simps [simp del]

definition findFormatSpecEnd :: "hook \<Rightarrow> string \<Rightarrow> nat \<Rightarrow> machine \<Rightarrow> nat exit" where
  "findFormatSpecEnd h s fmt m =
     andThen
       (if deref s fmt = NUL
        then TINYFORMAT_ERROR h ''tinyformat: Not enough conversion specifiers in format string'' m
        else Returned m ())
       (\<lambda>m u.
          case findFormatSpecEnd_for s fmt of
            (True, fmtEnd) \<Rightarrow> Returned m fmtEnd
          | (False, c) \<Rightarrow>
              andThen
                (TINYFORMAT_ERROR h
                   ''tinyformat: Conversion spec incorrectly terminated by end of string'' m)
                (\<lambda>m u. Returned m c))"

section \<open>The values to format\<close>

text \<open>
  The functions below are templates over the type of the value. The argument types
  modelled are \<^verbatim>\<open>int\<close>; the narrow character types (\<^verbatim>\<open>char\<close>, \<^verbatim>\<open>signed char\<close>,
  \<^verbatim>\<open>unsigned char\<close>: three overloads with one body, told apart only by how the value
  converts to \<^verbatim>\<open>int\<close>; plain \<^verbatim>\<open>char\<close> is one or the other by platform); C strings
  (\<^verbatim>\<open>const char*\<close>, \<^verbatim>\<open>char*\<close> and string literals, with their address and the characters
  before their NUL); \<^verbatim>\<open>std::string\<close>; other pointers; and a user's type, which brings its
  own \<^verbatim>\<open>operator<<\<close> and converts neither to \<^verbatim>\<open>char\<close> nor to \<^verbatim>\<open>const void*\<close>.
\<close>

datatype signedness = is_signed | is_unsigned

datatype arg =
    IntArg "32 word"
  | CharArg signedness char
  | CStringArg nat string
  | StringArg string
  | PointerArg nat
  | UserArg "ostream \<Rightarrow> ostream"

text \<open>\<^verbatim>\<open>static_cast<int>(value)\<close> for a narrow character.\<close>

definition char_to_int :: "signedness \<Rightarrow> char \<Rightarrow> 32 word" where
  "char_to_int sg ch =
     (case sg of is_signed \<Rightarrow> scast (of_char ch :: 8 word)
      | is_unsigned \<Rightarrow> ucast (of_char ch :: 8 word))"

text \<open>\<^verbatim>\<open>out << value\<close>.\<close>

fun insert_value :: "arg \<Rightarrow> ostream \<Rightarrow> ostream" where
  "insert_value (IntArg v) out = insert_int v out"
| "insert_value (CharArg sg ch) out = insert_char ch out"
| "insert_value (CStringArg a str) out = insert_string str out"
| "insert_value (StringArg str) out = insert_string str out"
| "insert_value (PointerArg a) out = insert_pointer a out"
| "insert_value (UserArg f) out = f out"

text \<open>
  \<^verbatim>\<open>is_convertible<T, char>::value\<close> and \<^verbatim>\<open>is_convertible<T, const void*>::value\<close>, with the
  casts \<^verbatim>\<open>formatValueAsType\<close> makes when they hold. The narrow character types do not
  reach the template: their overloads of \<^verbatim>\<open>formatValue\<close> are chosen first.
\<close>

fun convertToChar :: "arg \<Rightarrow> char option" where
  "convertToChar (IntArg v) = Some (char_of (uint v))"
| "convertToChar v = None"

fun convertToVoidPtr :: "arg \<Rightarrow> nat option" where
  "convertToVoidPtr (CStringArg a str) = Some a"
| "convertToVoidPtr (PointerArg a) = Some a"
| "convertToVoidPtr v = None"

section \<open>formatValue\<close>

text \<open>
  The character \<^verbatim>\<open>*(fmtEnd-1)\<close> decides. With \<open>fmtEnd = 0\<close> the read is before the start
  of the buffer: \<open>None\<close>.
\<close>

definition specChar :: "string \<Rightarrow> nat \<Rightarrow> char option" where
  "specChar s fmtEnd = (if fmtEnd = 0 then None else Some (deref s (fmtEnd - 1)))"

text \<open>
  The template. Its tests are \<^verbatim>\<open>canConvertToChar && *(fmtEnd-1) == 'c'\<close> and then
  \<^verbatim>\<open>canConvertToVoidPtr && *(fmtEnd-1) == 'p'\<close>: the character is read only for a type
  that converts.
\<close>

definition formatValue_voidPtr :: "string \<Rightarrow> nat \<Rightarrow> arg \<Rightarrow> ostream \<Rightarrow> ostream option" where
  "formatValue_voidPtr s fmtEnd val out =
     (case convertToVoidPtr val of
        None \<Rightarrow> Some (insert_value val out)
      | Some a \<Rightarrow>
          (case specChar s fmtEnd of
             None \<Rightarrow> None
           | Some spec \<Rightarrow>
               Some (if spec = CHR ''p'' then insert_pointer a out else insert_value val out)))"

definition formatValue_template :: "string \<Rightarrow> nat \<Rightarrow> arg \<Rightarrow> ostream \<Rightarrow> ostream option" where
  "formatValue_template s fmtEnd val out =
     (case convertToChar val of
        None \<Rightarrow> formatValue_voidPtr s fmtEnd val out
      | Some ch \<Rightarrow>
          (case specChar s fmtEnd of
             None \<Rightarrow> None
           | Some spec \<Rightarrow>
               if spec = CHR ''c'' then Some (insert_char ch out)
               else formatValue_voidPtr s fmtEnd val out))"

text \<open>
  The overloads for the narrow character types, and the template for every other type.
\<close>

definition formatValue :: "string \<Rightarrow> nat \<Rightarrow> nat \<Rightarrow> arg \<Rightarrow> ostream \<Rightarrow> ostream option" where
  "formatValue s fmtBegin fmtEnd val out =
     (case val of
        CharArg sg ch \<Rightarrow>
          (case specChar s fmtEnd of
             None \<Rightarrow> None
           | Some spec \<Rightarrow>
               Some (if spec = CHR ''u'' \<or> spec = CHR ''d'' \<or> spec = CHR ''i'' \<or>
                        spec = CHR ''o'' \<or> spec = CHR ''X'' \<or> spec = CHR ''x''
                     then insert_int (char_to_int sg ch) out
                     else insert_char ch out))
      | _ \<Rightarrow> formatValue_template s fmtEnd val out)"

section \<open>detail::formatCStringTruncate\<close>

text \<open>
  The overloads for \<^verbatim>\<open>const char*\<close> and \<^verbatim>\<open>char*\<close> write at most \<open>truncLen\<close> characters
  of the C string and return true; the generic version returns false.
\<close>

function formatCStringTruncate_while :: "string \<Rightarrow> int \<Rightarrow> nat \<Rightarrow> nat" where
  "formatCStringTruncate_while val truncLen len =
     (if int len < truncLen \<and> deref val len \<noteq> NUL
      then formatCStringTruncate_while val truncLen (len + 1) else len)"
  by pat_completeness auto
termination
  by (relation "measure (\<lambda>(val, truncLen, len). length val - len)")
     (auto simp: deref_def split: if_splits)

declare formatCStringTruncate_while.simps [simp del]

fun formatCStringTruncate :: "arg \<Rightarrow> int \<Rightarrow> ostream \<Rightarrow> ostream \<times> bool" where
  "formatCStringTruncate (CStringArg a str) truncLen out =
     (ostream_write str (int (formatCStringTruncate_while str truncLen 0)) out, True)"
| "formatCStringTruncate v truncLen out = (out, False)"

section \<open>formatValueBasic\<close>

text \<open>
  Save the stream state, set it from the format spec, format the value, restore the
  stream state. \<open>spacePadPositive\<close> is the loop that turns each \<open>+\<close> of the result into
  a space; \<open>int_of_size\<close> and \<open>int_of_streamsize\<close> are the two casts to \<^verbatim>\<open>int\<close> in the
  test for truncation.
\<close>

fun spacePadPositive :: "string \<Rightarrow> string" where
  "spacePadPositive [] = []"
| "spacePadPositive (ch # r) = (if ch = CHR ''+'' then CHR '' '' else ch) # spacePadPositive r"

definition int_of_size :: "nat \<Rightarrow> int" where
  "int_of_size n = sint (word_of_nat n :: 32 word)"

definition int_of_streamsize :: "int \<Rightarrow> int" where
  "int_of_streamsize n = sint (word_of_int n :: 32 word)"

text \<open>
  The branch for extra flags. First the value is formatted into the temporary stream;
  \<open>bufferedResult\<close> is \<^verbatim>\<open>result\<close> after the loop over it. Then the result goes to the
  real stream, cut to the precision or inserted whole.
\<close>

definition bufferedResult ::
  "string \<Rightarrow> nat \<Rightarrow> nat \<Rightarrow> arg \<Rightarrow> 32 word \<Rightarrow> ostream \<Rightarrow> string option" where
  "bufferedResult s fmtBegin fmtEnd val extraFlags out =
     (let tmpStream = copyfmt out ostringstream;
          tmpStream = (if extraFlags AND Flag_SpacePadPositive \<noteq> 0
                       then setf {ios_showpos} tmpStream else tmpStream);
          truncated = (if extraFlags AND Flag_TruncateToPrecision \<noteq> 0
                       then formatCStringTruncate val (precision out) tmpStream
                       else (tmpStream, False))
      in case (if snd truncated then Some (fst truncated)
               else formatValue s fmtBegin fmtEnd val tmpStream) of
           None \<Rightarrow> None
         | Some tmpStream \<Rightarrow>
             Some (if extraFlags AND Flag_SpacePadPositive \<noteq> 0
                   then spacePadPositive (written tmpStream) else written tmpStream))"

definition formatBuffered ::
  "string \<Rightarrow> nat \<Rightarrow> nat \<Rightarrow> arg \<Rightarrow> 32 word \<Rightarrow> ostream \<Rightarrow> ostream option" where
  "formatBuffered s fmtBegin fmtEnd val extraFlags out =
     (case bufferedResult s fmtBegin fmtEnd val extraFlags out of
        None \<Rightarrow> None
      | Some result \<Rightarrow>
          if extraFlags AND Flag_TruncateToPrecision \<noteq> 0 \<and>
             int_of_streamsize (precision out) < int_of_size (length result)
          then Some (ostream_write result (precision out) out)
          else Some (insert_string result out))"

definition formatValueBasic :: "hook \<Rightarrow> string \<Rightarrow> nat \<Rightarrow> nat \<Rightarrow> arg \<Rightarrow> machine \<Rightarrow> unit exit" where
  "formatValueBasic h s fmtBegin fmtEnd val m =
     (let width0 = width (stream m); precision0 = precision (stream m);
          flags0 = flags (stream m); fill0 = fill (stream m)
      in andThen (streamStateFromFormat h s fmtBegin fmtEnd m) (\<lambda>m extraFlags.
           case (if extraFlags = 0 then formatValue s fmtBegin fmtEnd val (stream m)
                 else formatBuffered s fmtBegin fmtEnd val extraFlags (stream m)) of
             None \<Rightarrow> Undefined m
           | Some out \<Rightarrow>
               Returned
                 (m\<lparr>stream := out\<lparr>width := width0, precision := precision0,
                                     flags := flags0, fill := fill0\<rparr>\<rparr>) ()))"

section \<open>format\<close>

text \<open>
  The argument list is a list: the case of no argument is the 0-argument function, and
  the case of one more argument is the N-argument function (the variadic template, and
  each of the generated overloads), which formats one value and calls the function for
  the rest.
\<close>

fun format :: "hook \<Rightarrow> string \<Rightarrow> nat \<Rightarrow> arg list \<Rightarrow> machine \<Rightarrow> unit exit" where
  "format h s fmt [] m =
     (case printFormatStringLiteral s fmt (stream m) of (out, fmt) \<Rightarrow>
        if deref s fmt \<noteq> NUL
        then TINYFORMAT_ERROR h ''tinyformat: Too many conversion specifiers in format string''
               (m\<lparr>stream := out\<rparr>)
        else Returned (m\<lparr>stream := out\<rparr>) ())"
| "format h s fmt (v1 # args) m =
     (case printFormatStringLiteral s fmt (stream m) of (out, fmt) \<Rightarrow>
        (case findFormatSpecEnd h s fmt (m\<lparr>stream := out\<rparr>) of
           Returned m fmtEnd \<Rightarrow>
             (case formatValueBasic h s fmt fmtEnd v1 m of
                Returned m u \<Rightarrow> format h s fmtEnd args m
              | Raised m \<Rightarrow> Raised m | Aborted m \<Rightarrow> Aborted m | Undefined m \<Rightarrow> Undefined m)
         | Raised m \<Rightarrow> Raised m | Aborted m \<Rightarrow> Aborted m | Undefined m \<Rightarrow> Undefined m))"

declare format.simps [simp del]

text \<open>
  \<^verbatim>\<open>std::string format(const char* fmt, args...)\<close> formats into a fresh
  \<^verbatim>\<open>std::ostringstream\<close>; \<open>start\<close> is the machine such a call starts in.
\<close>

definition start :: machine where
  "start = \<lparr>stream = ostringstream, reasons = []\<rparr>"

section \<open>The format mini-language, as lists of characters\<close>

text \<open>
  The notions the properties below are stated with. A flag character, the decimal value
  of a run of digits, a character that ends a format spec (a letter that is no length
  modifier), the literal text before the next format spec with each \<open>%%\<close> collapsed to
  \<open>%\<close>, and the number of format specs of a format string.
\<close>

definition isFlag :: "char \<Rightarrow> bool" where
  "isFlag ch = (ch \<in> set ''#0- +'')"

definition decimal :: "string \<Rightarrow> int" where
  "decimal ds = foldl (\<lambda>i ch. 10 * i + (int (of_char ch) - 48)) 0 ds"

definition endsSpec :: "char \<Rightarrow> bool" where
  "endsSpec ch = (isLetter ch \<and> \<not> isLengthModifier ch)"

text \<open>
  \<open>scanLiteral t\<close> is the literal text at the start of \<open>t\<close> and the number of characters
  scanned: up to and including the \<open>%\<close> that starts a format spec, or all of \<open>t\<close>.
\<close>

fun scanLiteral :: "string \<Rightarrow> string \<times> nat" where
  "scanLiteral [] = ([], 0)"
| "scanLiteral [ch] = (if ch = CHR ''%'' then ([], 1) else ([ch], 1))"
| "scanLiteral (ch # ch' # t) =
     (if ch \<noteq> CHR ''%'' then (case scanLiteral (ch' # t) of (lit, n) \<Rightarrow> (ch # lit, n + 1))
      else if ch' = CHR ''%'' then (case scanLiteral t of (lit, n) \<Rightarrow> (CHR ''%'' # lit, n + 2))
      else ([], 1))"

text \<open>
  \<open>specLength t\<close> is the length of the format spec at the start of \<open>t\<close> (the text after
  a \<open>%\<close>): through its first character that ends a spec, or all of \<open>t\<close> when there is
  none.
\<close>

definition specLength :: "string \<Rightarrow> nat" where
  "specLength t =
     (let n = length (takeWhile (\<lambda>ch. \<not> endsSpec ch) t) in if n < length t then n + 1 else n)"



text \<open>
  The first character of a text, NUL when there is none; the effect of a run of flag
  characters on the stream and the extra flags; and the text of a precision with the
  value it sets.
\<close>

definition first :: "string \<Rightarrow> char" where
  "first t = (case t of [] \<Rightarrow> NUL | ch # r \<Rightarrow> ch)"

definition applyFlag :: "ostream \<times> 32 word \<Rightarrow> char \<Rightarrow> ostream \<times> 32 word" where
  "applyFlag st ch = (case switchFlag ch (fst st) (snd st) of Some st' \<Rightarrow> st' | None \<Rightarrow> st)"

definition applyFlags :: "string \<Rightarrow> ostream \<times> 32 word \<Rightarrow> ostream \<times> 32 word" where
  "applyFlags fs st = foldl applyFlag st fs"

fun isPrecision :: "string \<Rightarrow> bool" where
  "isPrecision [] = True"
| "isPrecision (ch # ds) =
     (ch = CHR ''.'' \<and> (case ds of [] \<Rightarrow> True
         | d # ds' \<Rightarrow> if d = CHR ''-'' then list_all isdigit ds' else list_all isdigit ds))"

fun precisionOf :: "string \<Rightarrow> int option" where
  "precisionOf [] = None"
| "precisionOf (ch # ds) =
     (case ds of [] \<Rightarrow> Some 0
      | d # ds' \<Rightarrow> if d = CHR ''-'' then Some 0 else Some (decimal ds))"

fun precisionDigits :: "string \<Rightarrow> string" where
  "precisionDigits [] = []"
| "precisionDigits (ch # ds) =
     (case ds of [] \<Rightarrow> [] | d # ds' \<Rightarrow> if d = CHR ''-'' then ds' else ds)"

text \<open>
  The reasons the hook has been given when a call ends, and the statement that a call
  keeps the reasons given before it and adds only reasons from a set \<open>A\<close>.
\<close>

definition reasons_of :: "'a exit \<Rightarrow> string list" where
  "reasons_of x =
     (case x of Returned m a \<Rightarrow> reasons m | Raised m \<Rightarrow> reasons m
      | Aborted m \<Rightarrow> reasons m | Undefined m \<Rightarrow> reasons m)"

definition adds :: "string set \<Rightarrow> machine \<Rightarrow> 'a exit \<Rightarrow> bool" where
  "adds A m x = (set (reasons m) \<subseteq> set (reasons_of x) \<and> set (reasons_of x) \<subseteq> set (reasons m) \<union> A)"

text \<open>
  A format spec is its flags, its width, the text of its precision, its length modifiers
  and the letter that ends it: \<open>fs @ ws @ ps @ lm @ [t]\<close>. The width and the digits of
  the precision fit an \<^verbatim>\<open>int\<close>, and the width does not start with \<open>0\<close>, which is a
  flag. \<open>parsedState\<close> is the stream such a spec sets before the switch on \<open>t\<close>.
\<close>

definition isSpec :: "string \<Rightarrow> string \<Rightarrow> string \<Rightarrow> string \<Rightarrow> char \<Rightarrow> bool" where
  "isSpec fs ws ps lm t =
     (list_all isFlag fs \<and> list_all isdigit ws \<and> \<not> isFlag (first ws) \<and> decimal ws \<le> INT_MAX \<and>
      isPrecision ps \<and> decimal (precisionDigits ps) \<le> INT_MAX \<and>
      list_all isLengthModifier lm \<and> isLetter t \<and> \<not> isLengthModifier t)"

definition parsedState :: "string \<Rightarrow> string \<Rightarrow> string \<Rightarrow> ostream \<Rightarrow> ostream" where
  "parsedState fs ws ps out =
     (let out1 = fst (applyFlags fs (resetState out, 0));
          out2 = (if ws = [] then out1 else out1\<lparr>width := decimal ws\<rparr>)
      in case precisionOf ps of None \<Rightarrow> out2 | Some p \<Rightarrow> out2\<lparr>precision := p\<rparr>)"

text \<open>
  What a set of flag characters comes to, on a stream in which \<^verbatim>\<open>left\<close> and \<^verbatim>\<open>showpos\<close>
  are not set (as after the reset) and with no extra flag set: \<open>-\<close> wins over \<open>0\<close>, and
  \<open>+\<close> wins over the space.
\<close>

definition flagsContext :: "char set \<Rightarrow> ostream \<Rightarrow> ostream \<times> 32 word" where
  "flagsContext S out =
     (out\<lparr>fill := (if CHR ''-'' \<in> S then CHR '' '' else if CHR ''0'' \<in> S then CHR ''0''
                    else fill out),
           flags := (if CHR ''-'' \<in> S then (flags out - adjustfield) \<union> {ios_left}
                     else if CHR ''0'' \<in> S then (flags out - adjustfield) \<union> {ios_internal}
                     else flags out)
                    \<union> (if CHR ''#'' \<in> S then {ios_showpoint, ios_showbase} else {})
                    \<union> (if CHR ''+'' \<in> S then {ios_showpos} else {})\<rparr>,
      if CHR '' '' \<in> S \<and> CHR ''+'' \<notin> S then Flag_SpacePadPositive else 0)"

section \<open>Reading the format string\<close>

lemma deref_drop: "deref s c = (case drop c s of [] \<Rightarrow> NUL | ch # t \<Rightarrow> ch)"
  by (auto simp: deref_def hd_drop_conv_nth [symmetric] split: list.splits)

lemma drop_Suc_Cons_eq: "drop c s = ch # t \<Longrightarrow> drop (Suc c) s = t"
  by (metis drop_Suc tl_drop list.sel(3))

lemma isdigit_not_NUL [simp]: "\<not> isdigit NUL"
  by (simp add: isdigit_def less_eq_char_def)

lemma foldl_step_mono:
  "0 \<le> i \<Longrightarrow> list_all isdigit ds \<Longrightarrow> i \<le> foldl (\<lambda>i ch. 10 * i + (int (of_char ch) - 48)) i ds"
proof (induction ds arbitrary: i)
  case Nil then show ?case by simp
next
  case (Cons d ds)
  have d: "0 \<le> int (of_char d) - 48"
    using Cons.prems(2) by (simp add: isdigit_def less_eq_char_def)
  have "i \<le> 10 * i + (int (of_char d) - 48)" using Cons.prems(1) d by linarith
  also have "\<dots> \<le> foldl (\<lambda>i ch. 10 * i + (int (of_char ch) - 48)) (10 * i + (int (of_char d) - 48)) ds"
    using Cons.prems d by (intro Cons.IH) auto
  finally show ?case by simp
qed

lemma deref_Nil: "drop c s = [] \<Longrightarrow> deref s c = NUL"
  by (simp add: deref_drop)

lemma deref_Cons: "drop c s = ch # t \<Longrightarrow> deref s c = ch"
  by (simp add: deref_drop)

lemma parseIntAndAdvance_for_stop:
  "\<not> isdigit (deref s c) \<Longrightarrow> parseIntAndAdvance_for s i c = Some (i, c)"
  by (subst parseIntAndAdvance_for.simps) simp

lemma parseIntAndAdvance_for_over:
  "isdigit (deref s c) \<Longrightarrow> INT_MAX < 10 * i + (int (of_char (deref s c)) - 48) \<Longrightarrow>
   parseIntAndAdvance_for s i c = None"
  by (subst parseIntAndAdvance_for.simps) simp

lemma parseIntAndAdvance_for_step:
  "isdigit (deref s c) \<Longrightarrow> \<not> INT_MAX < 10 * i + (int (of_char (deref s c)) - 48) \<Longrightarrow>
   parseIntAndAdvance_for s i c =
     parseIntAndAdvance_for s (10 * i + (int (of_char (deref s c)) - 48)) (c + 1)"
  by (subst parseIntAndAdvance_for.simps) simp

lemma parseIntAndAdvance_for_eq:
  "0 \<le> i \<Longrightarrow> i \<le> INT_MAX \<Longrightarrow> parseIntAndAdvance_for s i c =
     (if INT_MAX < foldl (\<lambda>i ch. 10 * i + (int (of_char ch) - 48)) i (takeWhile isdigit (drop c s))
      then None
      else Some (foldl (\<lambda>i ch. 10 * i + (int (of_char ch) - 48)) i (takeWhile isdigit (drop c s)),
                 c + length (takeWhile isdigit (drop c s))))"
proof (induction s i c rule: parseIntAndAdvance_for.induct)
  case (1 s i c)
  show ?case
  proof (cases "drop c s")
    case Nil
    have "\<not> isdigit (deref s c)" by (simp add: deref_Nil [OF Nil])
    then show ?thesis
      using "1.prems" Nil by (simp add: parseIntAndAdvance_for_stop)
  next
    case (Cons ch t)
    note dr = drop_Suc_Cons_eq [OF Cons]
    note de = deref_Cons [OF Cons]
    show ?thesis
    proof (cases "isdigit ch")
      case False
      then show ?thesis
        using "1.prems" Cons by (simp add: parseIntAndAdvance_for_stop de)
    next
      case True
      define i' where "i' = 10 * i + (int (of_char ch) - 48)"
      have d: "0 \<le> int (of_char ch) - 48"
        using True by (simp add: isdigit_def less_eq_char_def)
      have i': "0 \<le> i'" using "1.prems" d unfolding i'_def by linarith
      have tw: "takeWhile isdigit (drop c s) = ch # takeWhile isdigit t"
        using True Cons by simp
      have mono: "i' \<le> foldl (\<lambda>i ch. 10 * i + (int (of_char ch) - 48)) i' (takeWhile isdigit t)"
        by (rule foldl_step_mono [OF i']) (auto simp: list_all_iff dest: set_takeWhileD)
      show ?thesis
      proof (cases "INT_MAX < i'")
        case over: True
        have "parseIntAndAdvance_for s i c = None"
          using over True by (intro parseIntAndAdvance_for_over) (simp_all add: de i'_def)
        moreover have "INT_MAX < foldl (\<lambda>i ch. 10 * i + (int (of_char ch) - 48)) i' (takeWhile isdigit t)"
          using over mono by linarith
        ultimately show ?thesis
          by (simp only: tw foldl_Cons i'_def [symmetric] if_True)
      next
        case nover: False
        have "parseIntAndAdvance_for s i c = parseIntAndAdvance_for s i' (c + 1)"
          using nover True unfolding i'_def by (subst parseIntAndAdvance_for_step) (simp_all add: de)
        also have "\<dots> = (if INT_MAX < foldl (\<lambda>i ch. 10 * i + (int (of_char ch) - 48)) i' (takeWhile isdigit (drop (c + 1) s))
            then None
            else Some (foldl (\<lambda>i ch. 10 * i + (int (of_char ch) - 48)) i' (takeWhile isdigit (drop (c + 1) s)),
                 c + 1 + length (takeWhile isdigit (drop (c + 1) s))))"
          using nover True i' "1.IH" [of i'] by (simp add: de i'_def)
        finally show ?thesis
          using dr by (simp add: tw i'_def)
      qed
    qed
  qed
qed

lemma parseIntAndAdvance_eq:
  "parseIntAndAdvance s c =
     (let ds = takeWhile isdigit (drop c s)
      in if INT_MAX < decimal ds then None else Some (decimal ds, c + length ds))"
  by (simp add: parseIntAndAdvance_def parseIntAndAdvance_for_eq decimal_def Let_def INT_MAX_def)

lemma first_simps [simp]: "first [] = NUL" "first (ch # t) = ch"
  by (simp_all add: first_def)

lemma deref_first: "deref s c = first (drop c s)"
  by (simp add: deref_drop first_def)

lemma drop_add_append: "drop c s = xs @ r \<Longrightarrow> drop (c + length xs) s = r"
  by (metis add.commute append_eq_conv_conj drop_drop)

lemma takeWhile_run:
  "list_all P xs \<Longrightarrow> \<not> P (first r) \<Longrightarrow> takeWhile P (xs @ r) = xs"
  by (cases r) (auto simp: list_all_iff takeWhile_append2 intro: takeWhile_eq_all_conv [THEN iffD2])

lemma switchFlag_None_iff: "switchFlag ch out ex = None \<longleftrightarrow> \<not> isFlag ch"
  by (auto simp: switchFlag_def isFlag_def)

lemma isFlag_not_NUL [simp]: "\<not> isFlag NUL"
  by (simp add: isFlag_def)

lemma isLengthModifier_not_NUL [simp]: "\<not> isLengthModifier NUL"
  by (simp add: isLengthModifier_def)

lemma parseFlags_stop: "\<not> isFlag (deref s c) \<Longrightarrow> parseFlags s c out ex = (c, out, ex)"
  by (subst parseFlags.simps) (simp add: switchFlag_None_iff [THEN iffD2])

lemma parseFlags_step:
  "isFlag (deref s c) \<Longrightarrow>
   parseFlags s c out ex =
     parseFlags s (c + 1) (fst (applyFlag (out, ex) (deref s c))) (snd (applyFlag (out, ex) (deref s c)))"
  by (subst parseFlags.simps)
     (auto simp: applyFlag_def switchFlag_None_iff split: option.splits)

lemma parseFlags_eq:
  "parseFlags s c out ex =
     (case applyFlags (takeWhile isFlag (drop c s)) (out, ex) of
        (out', ex') \<Rightarrow> (c + length (takeWhile isFlag (drop c s)), out', ex'))"
proof (induction s c out ex rule: parseFlags.induct)
  case (1 s c out ex)
  show ?case
  proof (cases "drop c s")
    case Nil
    then show ?thesis
      by (simp add: parseFlags_stop deref_first applyFlags_def)
  next
    case (Cons ch t)
    note dr = drop_Suc_Cons_eq [OF Cons]
    show ?thesis
    proof (cases "isFlag ch")
      case False
      then show ?thesis
        using Cons by (simp add: parseFlags_stop deref_first applyFlags_def)
    next
      case True
      obtain o1 e1 where st: "applyFlag (out, ex) ch = (o1, e1)" by (cases "applyFlag (out, ex) ch")
      have sw: "switchFlag ch out ex = Some (o1, e1)"
        using st True by (auto simp: applyFlag_def switchFlag_None_iff split: option.splits)
      have "parseFlags s c out ex = parseFlags s (c + 1) o1 e1"
        using True Cons st by (simp add: parseFlags_step deref_first)
      also have "\<dots> = (case applyFlags (takeWhile isFlag (drop (c + 1) s)) (o1, e1) of
        (out', ex') \<Rightarrow> (c + 1 + length (takeWhile isFlag (drop (c + 1) s)), out', ex'))"
        using sw Cons by (intro "1.IH" [of "(o1, e1)" o1 e1]) (simp_all add: deref_first)
      finally show ?thesis
        using True Cons dr st by (simp add: applyFlags_def)
    qed
  qed
qed

lemma skipLengthModifier_eq:
  "skipLengthModifier s c = c + length (takeWhile isLengthModifier (drop c s))"
proof (induction s c rule: skipLengthModifier.induct)
  case (1 s c)
  show ?case
  proof (cases "drop c s")
    case Nil
    then show ?thesis
      by (subst skipLengthModifier.simps) (simp add: deref_first)
  next
    case (Cons ch t)
    note dr = drop_Suc_Cons_eq [OF Cons]
    show ?thesis
    proof (cases "isLengthModifier ch")
      case False
      then show ?thesis
        using Cons by (subst skipLengthModifier.simps) (simp add: deref_first)
    next
      case True
      have "skipLengthModifier s c = skipLengthModifier s (c + 1)"
        using True Cons by (subst skipLengthModifier.simps) (simp add: deref_first)
      also have "\<dots> = c + 1 + length (takeWhile isLengthModifier (drop (c + 1) s))"
        using True Cons by (intro "1.IH") (simp add: deref_first)
      finally show ?thesis
        using True Cons dr by simp
    qed
  qed
qed

lemma deref_NUL_iff: "NUL \<notin> set s \<Longrightarrow> deref s c = NUL \<longleftrightarrow> length s \<le> c"
  by (auto simp: deref_def dest: nth_mem)

lemma endsSpec_not_NUL [simp]: "\<not> endsSpec NUL"
  by (simp add: endsSpec_def isLetter_def less_eq_char_def)

lemma findFormatSpecEnd_for_eq:
  "NUL \<notin> set s \<Longrightarrow>
   findFormatSpecEnd_for s c =
     (length (takeWhile (\<lambda>ch. \<not> endsSpec ch) (drop c s)) < length (drop c s),
      c + specLength (drop c s))"
proof (induction s c rule: findFormatSpecEnd_for.induct)
  case (1 s c)
  show ?case
  proof (cases "drop c s")
    case Nil
    then show ?thesis
      by (subst findFormatSpecEnd_for.simps) (simp add: deref_first specLength_def)
  next
    case (Cons ch t)
    note dr = drop_Suc_Cons_eq [OF Cons]
    have "ch \<in> set s" by (metis Cons in_set_dropD list.set_intros(1))
    then have nz: "ch \<noteq> NUL" using "1.prems" by auto
    show ?thesis
    proof (cases "endsSpec ch")
      case True
      then show ?thesis
        using Cons nz
        by (subst findFormatSpecEnd_for.simps) (simp add: deref_first specLength_def endsSpec_def)
    next
      case False
      have "findFormatSpecEnd_for s c = findFormatSpecEnd_for s (c + 1)"
        using False Cons nz
        by (subst findFormatSpecEnd_for.simps) (auto simp: deref_first endsSpec_def)
      also have "\<dots> = (length (takeWhile (\<lambda>ch. \<not> endsSpec ch) (drop (c + 1) s)) < length (drop (c + 1) s),
         c + 1 + specLength (drop (c + 1) s))"
      proof (cases "isLengthModifier ch")
        case True
        then show ?thesis using "1.IH"(1) "1.prems" Cons nz by (simp add: deref_first)
      next
        case nl: False
        then have "\<not> isLetter ch" using False by (simp add: endsSpec_def)
        then show ?thesis using "1.IH"(2) "1.prems" Cons nz nl by (simp add: deref_first)
      qed
      finally show ?thesis
        using False Cons dr by (simp add: specLength_def Let_def)
    qed
  qed
qed

section \<open>The literal scan\<close>

lemma scanLiteral_other:
  "ch \<noteq> CHR ''%'' \<Longrightarrow> scanLiteral (ch # t) = (ch # fst (scanLiteral t), snd (scanLiteral t) + 1)"
  by (cases t) (auto split: prod.splits)

lemma scanLiteral_escape:
  "scanLiteral (CHR ''%'' # CHR ''%'' # t) = (CHR ''%'' # fst (scanLiteral t), snd (scanLiteral t) + 2)"
  by (auto split: prod.splits)

lemma scanLiteral_spec:
  "first t \<noteq> CHR ''%'' \<Longrightarrow> scanLiteral (CHR ''%'' # t) = ([], 1)"
  by (cases t) auto

declare scanLiteral.simps(3) [simp del]

lemma take_Suc_drop:
  "fmt \<le> c \<Longrightarrow> drop c s = ch # t \<Longrightarrow>
   take (Suc c - fmt) (drop fmt s) = take (c - fmt) (drop fmt s) @ [ch]"
proof -
  assume le: "fmt \<le> c" and dr: "drop c s = ch # t"
  have c: "c < length s" using dr by (metis drop_eq_Nil list.distinct(1) not_le)
  have "s ! c = ch" using dr c by (metis hd_drop_conv_nth list.sel(1))
  moreover have "Suc c - fmt = Suc (c - fmt)" using le by simp
  moreover have "c - fmt < length (drop fmt s)" using c le by simp
  ultimately show ?thesis
    using le by (simp add: take_Suc_conv_app_nth)
qed

lemma ostream_write_eq:
  "fmt \<le> c \<Longrightarrow> ostream_write p (int c - int fmt) out = out\<lparr>written := written out @ take (c - fmt) p\<rparr>"
  by (simp add: ostream_write_def nat_diff_distrib')

lemma printFormatStringLiteral_for_eq:
  "NUL \<notin> set s \<Longrightarrow> fmt \<le> c \<Longrightarrow>
   printFormatStringLiteral_for s fmt c out =
     (out\<lparr>written := written out @ take (c - fmt) (drop fmt s) @ fst (scanLiteral (drop c s))\<rparr>,
      c + snd (scanLiteral (drop c s)))"
proof (induction s fmt c out rule: printFormatStringLiteral_for.induct)
  case (1 s fmt c out)
  note le = \<open>fmt \<le> c\<close>
  show ?case
  proof (cases "drop c s")
    case Nil
    then show ?thesis
      using le by (subst printFormatStringLiteral_for.simps) (simp add: deref_first ostream_write_eq)
  next
    case (Cons ch t)
    note dr = drop_Suc_Cons_eq [OF Cons]
    have "ch \<in> set s" by (metis Cons in_set_dropD list.set_intros(1))
    then have nz: "ch \<noteq> NUL" using "1.prems" by auto
    have de: "deref s c = ch" and de1: "deref s (Suc c) = first t"
      using Cons dr by (simp_all add: deref_first)
    show ?thesis
    proof (cases "ch = CHR ''%''")
      case False
      have "printFormatStringLiteral_for s fmt c out = printFormatStringLiteral_for s fmt (c + 1) out"
        using False nz by (subst printFormatStringLiteral_for.simps) (simp add: de)
      also have "\<dots> = (out\<lparr>written := written out @ take (c + 1 - fmt) (drop fmt s) @ fst (scanLiteral (drop (c + 1) s))\<rparr>,
          c + 1 + snd (scanLiteral (drop (c + 1) s)))"
        using False nz le "1.prems" by (intro "1.IH"(2)) (simp_all add: de)
      finally show ?thesis
        using False Cons dr take_Suc_drop [OF le Cons] by (simp add: scanLiteral_other)
    next
      case pc: True
      define out' where "out' = out\<lparr>written := written out @ take (c - fmt) (drop fmt s)\<rparr>"
      have w: "ostream_write (drop fmt s) (int c - int fmt) out = out'"
        using le by (simp add: ostream_write_eq out'_def)
      show ?thesis
      proof (cases "first t = CHR ''%''")
        case False
        have "printFormatStringLiteral_for s fmt c out = (out', c + 1)"
          using False pc by (subst printFormatStringLiteral_for.simps) (simp add: de de1 w)
        then show ?thesis
          using False pc Cons by (simp add: scanLiteral_spec out'_def)
      next
        case True
        then obtain t' where t: "t = CHR ''%'' # t'" by (cases t) auto
        have dr2: "drop (c + 2) s = t'"
          using drop_Suc_Cons_eq [of "Suc c" s "CHR ''%''" t'] dr t by simp
        have "printFormatStringLiteral_for s fmt c out = printFormatStringLiteral_for s (c + 1) (c + 2) out'"
          using True pc by (subst printFormatStringLiteral_for.simps) (simp add: de de1 w)
        also have "\<dots> = (out'\<lparr>written := written out' @ take (c + 2 - (c + 1)) (drop (c + 1) s) @ fst (scanLiteral (drop (c + 2) s))\<rparr>,
          c + 2 + snd (scanLiteral (drop (c + 2) s)))"
          using True pc "1.prems" w by (intro "1.IH"(1)) (simp_all add: de de1)
        finally show ?thesis
          using pc Cons t dr dr2 by (simp add: scanLiteral_escape out'_def)
      qed
    qed
  qed
qed

lemma printFormatStringLiteral_eq:
  "NUL \<notin> set s \<Longrightarrow>
   printFormatStringLiteral s fmt out =
     (out\<lparr>written := written out @ fst (scanLiteral (drop fmt s))\<rparr>,
      fmt + snd (scanLiteral (drop fmt s)))"
  by (simp add: printFormatStringLiteral_def printFormatStringLiteral_for_eq)

section \<open>The error hook and the stream state\<close>

lemma TINYFORMAT_ERROR_returns [simp]:
  "TINYFORMAT_ERROR hook_returns reason m = Returned (m\<lparr>reasons := reasons m @ [reason]\<rparr>) ()"
  by (simp add: TINYFORMAT_ERROR_def)

lemma TINYFORMAT_ERROR_leaves [simp]:
  "TINYFORMAT_ERROR hook_leaves reason m = Raised (m\<lparr>reasons := reasons m @ [reason]\<rparr>)"
  by (simp add: TINYFORMAT_ERROR_def)

lemma andThen_simps [simp]:
  "andThen (Returned m a) f = f m a"
  "andThen (Raised m) f = Raised m"
  "andThen (Aborted m) f = Aborted m"
  "andThen (Undefined m) f = Undefined m"
  by (simp_all add: andThen_def)

lemma andThen_not_Raised:
  assumes "\<And>m'. x \<noteq> Raised m'" and "\<And>m1 a m'. f m1 a \<noteq> Raised m'"
  shows "andThen x f \<noteq> Raised m'"
  using assms by (cases x) auto

lemma parseWidth_returns_not_Raised: "parseWidth hook_returns s c m \<noteq> Raised m'"
  by (auto simp: parseWidth_def split: option.splits)

lemma parsePrecision_returns_not_Raised: "parsePrecision hook_returns s c m \<noteq> Raised m'"
  by (auto simp: parsePrecision_def split: option.splits)

lemma switchType_returns_not_Raised: "switchType hook_returns t p e m \<noteq> Raised m'"
  by (simp add: switchType_def)

lemma streamStateFromFormat_returns_not_Raised:
  "streamStateFromFormat hook_returns s fmtStart fmtEnd m \<noteq> Raised m'"
  unfolding streamStateFromFormat_def
  by (auto simp: andThen_def Let_def parseWidth_returns_not_Raised
        parsePrecision_returns_not_Raised switchType_returns_not_Raised
      split: prod.splits exit.splits)

text \<open>
  C1, as the code has it. Whenever \<open>formatValueBasic\<close> returns, the width, precision,
  format flags and fill character of the stream are those before the call; this covers
  the paths on which the error hook was invoked and returned, and a hook that returns
  never makes the call end otherwise at its invocation. (When the hook leaves the call,
  by an exception, the stream keeps the state set so far: see the counterexample.)
\<close>

theorem formatValueBasic_restores:
  "(formatValueBasic h s fmtBegin fmtEnd val m = Returned m' u \<longrightarrow>
      width (stream m') = width (stream m) \<and> precision (stream m') = precision (stream m) \<and>
      flags (stream m') = flags (stream m) \<and> fill (stream m') = fill (stream m)) \<and>
   formatValueBasic hook_returns s fmtBegin fmtEnd val m \<noteq> Raised m''"
proof (intro conjI impI)
  assume "formatValueBasic h s fmtBegin fmtEnd val m = Returned m' u"
  then have "\<exists>out m1. m' = m1\<lparr>stream := out\<lparr>width := width (stream m), precision := precision (stream m),
                 flags := flags (stream m), fill := fill (stream m)\<rparr>\<rparr>"
    by (auto simp: formatValueBasic_def andThen_def Let_def split: exit.splits option.splits)
  then obtain out m1 where m': "m' = m1\<lparr>stream := out\<lparr>width := width (stream m), precision := precision (stream m),
                 flags := flags (stream m), fill := fill (stream m)\<rparr>\<rparr>" by blast
  show "width (stream m') = width (stream m)" by (simp add: m')
  show "precision (stream m') = precision (stream m)" by (simp add: m')
  show "flags (stream m') = flags (stream m)" by (simp add: m')
  show "fill (stream m') = fill (stream m)" by (simp add: m')
next
  show "formatValueBasic hook_returns s fmtBegin fmtEnd val m \<noteq> Raised m''"
    unfolding formatValueBasic_def Let_def
    by (rule andThen_not_Raised) (auto simp: streamStateFromFormat_returns_not_Raised split: option.splits)
qed

theorem formatValueBasic_restores_witness:
  "formatValueBasic hook_returns ''%*d'' 1 3 (IntArg 5)
     \<lparr>stream = \<lparr>width = 7, precision = 3, fill = CHR ''*'', flags = {ios_hex, ios_showpos},
        written = ''x''\<rparr>, reasons = []\<rparr>
   = Returned
     \<lparr>stream = \<lparr>width = 7, precision = 3, fill = CHR ''*'', flags = {ios_hex, ios_showpos},
        written = ''x5''\<rparr>, reasons = [''tinyformat: variable field widths not supported'']\<rparr> () \<and>
   width (stream \<lparr>stream = \<lparr>width = 7, precision = 3, fill = CHR ''*'', flags = {ios_hex, ios_showpos},
        written = ''x5''\<rparr>, reasons = [''tinyformat: variable field widths not supported'']\<rparr>) = 7"
proof -
  have e: "formatValueBasic hook_returns ''%*d'' 1 3 (IntArg 5)
     \<lparr>stream = \<lparr>width = 7, precision = 3, fill = CHR ''*'', flags = {ios_hex, ios_showpos},
        written = ''x''\<rparr>, reasons = []\<rparr>
   = Returned
     \<lparr>stream = \<lparr>width = 7, precision = 3, fill = CHR ''*'', flags = {ios_hex, ios_showpos},
        written = ''x5''\<rparr>, reasons = [''tinyformat: variable field widths not supported'']\<rparr> ()"
    by code_simp
  from formatValueBasic_restores [THEN conjunct1, rule_format, OF e] e show ?thesis
    by simp
qed

text \<open>
  C1 as stated fails when the hook leaves the call: at \<open>%*d\<close> the stream has been reset
  and the call ends without the restore.
\<close>

theorem formatValueBasic_leak_counterexample:
  "formatValueBasic hook_leaves ''%*d'' 1 3 (IntArg 5)
     \<lparr>stream = \<lparr>width = 7, precision = 3, fill = CHR ''*'', flags = {ios_hex, ios_showpos},
        written = ''x''\<rparr>, reasons = []\<rparr>
   = Raised
     \<lparr>stream = \<lparr>width = 0, precision = 6, fill = CHR '' '', flags = {},
        written = ''x''\<rparr>, reasons = [''tinyformat: variable field widths not supported'']\<rparr>"
  by code_simp

section \<open>The end of a format spec\<close>

lemma takeWhile_not_endsSpec:
  "\<forall>ch\<in>set d. \<not> endsSpec ch \<Longrightarrow> endsSpec t \<Longrightarrow>
   takeWhile (\<lambda>ch. \<not> endsSpec ch) (d @ t # post) = d"
  by (simp add: takeWhile_tail)

lemma specLength_terminated:
  "\<forall>ch\<in>set d. \<not> endsSpec ch \<Longrightarrow> endsSpec t \<Longrightarrow> specLength (d @ t # post) = length d + 1"
  by (simp add: specLength_def takeWhile_not_endsSpec)

lemma specLength_unterminated:
  "\<forall>ch\<in>set t. \<not> endsSpec ch \<Longrightarrow> specLength t = length t"
  by (simp add: specLength_def takeWhile_eq_all_conv [THEN iffD2])

text \<open>
  C4. Scanning from the character after \<open>%\<close>, \<open>findFormatSpecEnd\<close> passes over the
  length modifiers and over every character that is no letter, and returns the position
  one past the first letter that is no length modifier. When the string ends before such
  a letter it gives the hook the reason "Conversion spec incorrectly terminated by end of
  string"; when the string ends right after the \<open>%\<close> it gives the hook another reason
  first, "Not enough conversion specifiers in format string" (the error the specification
  lists as the missing conversion after \<open>%\<close>). With a hook that leaves, each is where the
  call ends.
\<close>

theorem findFormatSpecEnd_scan:
  assumes "NUL \<notin> set s"
  shows "(drop fmt s = d @ t # post \<and> (\<forall>ch\<in>set d. isLengthModifier ch \<or> \<not> isLetter ch) \<and>
            isLetter t \<and> \<not> isLengthModifier t \<longrightarrow>
          findFormatSpecEnd h s fmt m = Returned m (fmt + length d + 1)) \<and>
         (drop fmt s \<noteq> [] \<and> (\<forall>ch\<in>set (drop fmt s). isLengthModifier ch \<or> \<not> isLetter ch) \<longrightarrow>
          findFormatSpecEnd h s fmt m =
            andThen
              (TINYFORMAT_ERROR h
                 ''tinyformat: Conversion spec incorrectly terminated by end of string'' m)
              (\<lambda>m u. Returned m (length s))) \<and>
         (drop fmt s = [] \<longrightarrow>
          findFormatSpecEnd h s fmt m =
            andThen
              (TINYFORMAT_ERROR h
                 ''tinyformat: Not enough conversion specifiers in format string'' m)
              (\<lambda>m u. andThen
                 (TINYFORMAT_ERROR h
                    ''tinyformat: Conversion spec incorrectly terminated by end of string'' m)
                 (\<lambda>m u. Returned m fmt)))"
proof (intro conjI impI)
  assume a: "drop fmt s = d @ t # post \<and> (\<forall>ch\<in>set d. isLengthModifier ch \<or> \<not> isLetter ch) \<and>
            isLetter t \<and> \<not> isLengthModifier t"
  then have d: "\<forall>ch\<in>set d. \<not> endsSpec ch" and t: "endsSpec t"
    by (auto simp: endsSpec_def)
  have "deref s fmt \<noteq> NUL"
    using a assms by (simp add: deref_NUL_iff) (metis drop_eq_Nil append_is_Nil_conv list.distinct(1) not_le)
  moreover have "findFormatSpecEnd_for s fmt = (True, fmt + length d + 1)"
    using a by (simp add: findFormatSpecEnd_for_eq [OF assms] takeWhile_not_endsSpec [OF d t]
        specLength_terminated [OF d t])
  ultimately show "findFormatSpecEnd h s fmt m = Returned m (fmt + length d + 1)"
    by (simp add: findFormatSpecEnd_def)
next
  assume a: "drop fmt s \<noteq> [] \<and> (\<forall>ch\<in>set (drop fmt s). isLengthModifier ch \<or> \<not> isLetter ch)"
  then have d: "\<forall>ch\<in>set (drop fmt s). \<not> endsSpec ch"
    by (auto simp: endsSpec_def)
  have lt: "fmt < length s" using a by simp
  then have "deref s fmt \<noteq> NUL"
    using assms by (simp add: deref_NUL_iff)
  moreover have "findFormatSpecEnd_for s fmt = (False, length s)"
    using lt by (simp add: findFormatSpecEnd_for_eq [OF assms] specLength_unterminated [OF d]
        takeWhile_eq_all_conv [THEN iffD2, OF d])
  ultimately show "findFormatSpecEnd h s fmt m =
            andThen
              (TINYFORMAT_ERROR h
                 ''tinyformat: Conversion spec incorrectly terminated by end of string'' m)
              (\<lambda>m u. Returned m (length s))"
    by (simp add: findFormatSpecEnd_def)
next
  assume a: "drop fmt s = []"
  then have "deref s fmt = NUL" by (simp add: deref_first)
  moreover have "findFormatSpecEnd_for s fmt = (False, fmt)"
    using a by (simp add: findFormatSpecEnd_for_eq [OF assms] specLength_def)
  ultimately show "findFormatSpecEnd h s fmt m =
            andThen
              (TINYFORMAT_ERROR h
                 ''tinyformat: Not enough conversion specifiers in format string'' m)
              (\<lambda>m u. andThen
                 (TINYFORMAT_ERROR h
                    ''tinyformat: Conversion spec incorrectly terminated by end of string'' m)
                 (\<lambda>m u. Returned m fmt))"
    by (simp add: findFormatSpecEnd_def andThen_def split: exit.splits)
qed

theorem findFormatSpecEnd_scan_witness:
  "findFormatSpecEnd hook_leaves ''%5.2lld|'' 1 start = Returned start 7 \<and>
   findFormatSpecEnd hook_leaves ''%5.2ll'' 1 start =
     Raised (start\<lparr>reasons :=
       [''tinyformat: Conversion spec incorrectly terminated by end of string'']\<rparr>) \<and>
   findFormatSpecEnd hook_leaves ''abc%'' 4 start =
     Raised (start\<lparr>reasons :=
       [''tinyformat: Not enough conversion specifiers in format string'']\<rparr>) \<and>
   findFormatSpecEnd hook_returns ''abc%'' 4 start =
     Returned (start\<lparr>reasons :=
       [''tinyformat: Not enough conversion specifiers in format string'',
        ''tinyformat: Conversion spec incorrectly terminated by end of string'']\<rparr>) 4"
proof -
  have c: "isLengthModifier CHR ''l''" "isLetter CHR ''d''" "\<not> isLengthModifier CHR ''d''"
     "\<not> isLetter CHR ''5''" "\<not> isLetter CHR ''.''" "\<not> isLetter CHR ''2''"
    by (simp_all add: isLengthModifier_def isLetter_def less_eq_char_def)
  have 1: "findFormatSpecEnd hook_leaves ''%5.2lld|'' 1 start = Returned start 7"
    using findFormatSpecEnd_scan [of "''%5.2lld|''" 1 "''5.2ll''" "CHR ''d''" "''|''" hook_leaves start] c
    by simp
  have 2: "findFormatSpecEnd hook_leaves ''%5.2ll'' 1 start =
     Raised (start\<lparr>reasons :=
       [''tinyformat: Conversion spec incorrectly terminated by end of string'']\<rparr>)"
    using findFormatSpecEnd_scan [of "''%5.2ll''" 1 _ _ _ hook_leaves start] c
    by (simp add: start_def)
  have 3: "findFormatSpecEnd h ''abc%'' 4 start =
     andThen (TINYFORMAT_ERROR h ''tinyformat: Not enough conversion specifiers in format string'' start)
              (\<lambda>m u. andThen
                 (TINYFORMAT_ERROR h
                    ''tinyformat: Conversion spec incorrectly terminated by end of string'' m)
                 (\<lambda>m u. Returned m 4))" for h
    using findFormatSpecEnd_scan [of "''abc%''" 4 _ _ _ h start]
    by simp
  show ?thesis
    using 1 2 3 [of hook_leaves] 3 [of hook_returns] by (simp add: start_def)
qed

section \<open>Literal text and the escape\<close>

lemma scanLiteral_plain:
  "CHR ''%'' \<notin> set a \<Longrightarrow>
   scanLiteral (a @ t) = (a @ fst (scanLiteral t), length a + snd (scanLiteral t))"
  by (induction a) (auto simp: scanLiteral_other)

lemma scanLiteral_le: "snd (scanLiteral t) \<le> length t"
  by (induction t rule: scanLiteral.induct) (auto simp: scanLiteral.simps(3) split: prod.splits)

lemma format_Nil_eq:
  assumes "NUL \<notin> set s"
  shows "format h s fmt [] m =
     (if fmt + snd (scanLiteral (drop fmt s)) < length s
      then TINYFORMAT_ERROR h ''tinyformat: Too many conversion specifiers in format string''
             (m\<lparr>stream := (stream m)\<lparr>written := written (stream m) @ fst (scanLiteral (drop fmt s))\<rparr>\<rparr>)
      else Returned
             (m\<lparr>stream := (stream m)\<lparr>written := written (stream m) @ fst (scanLiteral (drop fmt s))\<rparr>\<rparr>) ())"
  by (simp add: format.simps printFormatStringLiteral_eq [OF assms] deref_NUL_iff [OF assms] not_le)

text \<open>
  C3. A format string without \<open>%\<close>, formatted with no argument, is written as it is and
  the hook is not invoked. A \<open>%%\<close> after text without \<open>%\<close> puts that text and one
  \<open>%\<close> into the output, and the scan goes on behind it as it would on the rest alone.
  So \<open>100%%\<close> gives \<open>100%\<close> and \<open>%%%%\<close> gives \<open>%%\<close>.
\<close>

theorem format_literal:
  "(NUL \<notin> set s \<and> CHR ''%'' \<notin> set s \<longrightarrow>
      format h s 0 [] m =
        Returned (m\<lparr>stream := (stream m)\<lparr>written := written (stream m) @ s\<rparr>\<rparr>) ()) \<and>
   (NUL \<notin> set a \<and> NUL \<notin> set b \<and> CHR ''%'' \<notin> set a \<longrightarrow>
      printFormatStringLiteral (a @ ''%%'' @ b) 0 out =
        (case printFormatStringLiteral b 0 (out\<lparr>written := written out @ a @ ''%''\<rparr>) of
           (out', n) \<Rightarrow> (out', length a + 2 + n))) \<and>
   format h ''100%%'' 0 [] start =
     Returned (start\<lparr>stream := (stream start)\<lparr>written := ''100%''\<rparr>\<rparr>) () \<and>
   format h ''%%%%'' 0 [] start =
     Returned (start\<lparr>stream := (stream start)\<lparr>written := ''%%''\<rparr>\<rparr>) ()"
proof (intro conjI impI)
  assume a: "NUL \<notin> set s \<and> CHR ''%'' \<notin> set s"
  then have "scanLiteral s = (s, length s)"
    using scanLiteral_plain [of s "[]"] by simp
  then show "format h s 0 [] m =
        Returned (m\<lparr>stream := (stream m)\<lparr>written := written (stream m) @ s\<rparr>\<rparr>) ()"
    using a by (simp add: format_Nil_eq)
next
  assume a: "NUL \<notin> set a \<and> NUL \<notin> set b \<and> CHR ''%'' \<notin> set a"
  then have n: "NUL \<notin> set (a @ ''%%'' @ b)" "NUL \<notin> set b" by auto
  have "scanLiteral (a @ ''%%'' @ b) =
      (a @ CHR ''%'' # fst (scanLiteral b), length a + (snd (scanLiteral b) + 2))"
    using a by (simp add: scanLiteral_plain scanLiteral_escape)
  then show "printFormatStringLiteral (a @ ''%%'' @ b) 0 out =
        (case printFormatStringLiteral b 0 (out\<lparr>written := written out @ a @ ''%''\<rparr>) of
           (out', n) \<Rightarrow> (out', length a + 2 + n))"
    using printFormatStringLiteral_eq [OF n(1), of 0 out]
      printFormatStringLiteral_eq [OF n(2), of 0 "out\<lparr>written := written out @ a @ ''%''\<rparr>"]
    by simp
next
  show "format h ''100%%'' 0 [] start =
     Returned (start\<lparr>stream := (stream start)\<lparr>written := ''100%''\<rparr>\<rparr>) ()"
    by (simp add: format_Nil_eq start_def ostringstream_def scanLiteral.simps(3))
next
  show "format h ''%%%%'' 0 [] start =
     Returned (start\<lparr>stream := (stream start)\<lparr>written := ''%%''\<rparr>\<rparr>) ()"
    by (simp add: format_Nil_eq start_def ostringstream_def scanLiteral.simps(3))
qed

theorem format_literal_witness:
  "format hook_leaves ''plain text'' 0 [] start =
     Returned (start\<lparr>stream := (stream start)\<lparr>written := ''plain text''\<rparr>\<rparr>) () \<and>
   printFormatStringLiteral ''50%% of %d'' 0 ostringstream =
     (ostringstream\<lparr>written := ''50% of ''\<rparr>, 9)"
proof -
  have 1: "format hook_leaves ''plain text'' 0 [] start =
     Returned (start\<lparr>stream := (stream start)\<lparr>written := ''plain text''\<rparr>\<rparr>) ()"
    using format_literal [of "''plain text''" hook_leaves start "[]" "[]" ostringstream]
    by (simp add: start_def ostringstream_def)
  have "printFormatStringLiteral '' of %d'' 0 (ostringstream\<lparr>written := ''50%''\<rparr>) =
     (ostringstream\<lparr>written := ''50% of ''\<rparr>, 5)"
    by code_simp
  then have 2: "printFormatStringLiteral ''50%% of %d'' 0 ostringstream =
     (ostringstream\<lparr>written := ''50% of ''\<rparr>, 9)"
    using format_literal [of "[]" hook_leaves start "''50''" "'' of %d''" ostringstream]
    by (simp add: ostringstream_def)
  show ?thesis using 1 2 by simp
qed

section \<open>Counting format specs against arguments\<close>

lemma reasons_of_simps [simp]:
  "reasons_of (Returned m a) = reasons m"
  "reasons_of (Raised m) = reasons m"
  "reasons_of (Aborted m) = reasons m"
  "reasons_of (Undefined m) = reasons m"
  by (simp_all add: reasons_of_def)

lemma reasons_on_stream [simp]: "reasons (on_stream f m) = reasons m"
  by (simp add: on_stream_def)




lemma adds_mono: "adds A m x \<Longrightarrow> A \<subseteq> B \<Longrightarrow> adds B m x"
  by (auto simp: adds_def)

lemma adds_cong_reasons: "adds A m x \<Longrightarrow> reasons m = reasons m0 \<Longrightarrow> adds A m0 x"
  by (simp add: adds_def)













lemma findFormatSpecEnd_inside:
  assumes "NUL \<notin> set s" and "drop fmt s \<noteq> []"
  shows "findFormatSpecEnd h s fmt m =
     (if length (takeWhile (\<lambda>ch. \<not> endsSpec ch) (drop fmt s)) < length (drop fmt s)
      then Returned m (fmt + specLength (drop fmt s))
      else andThen
             (TINYFORMAT_ERROR h
                ''tinyformat: Conversion spec incorrectly terminated by end of string'' m)
             (\<lambda>m u. Returned m (fmt + specLength (drop fmt s))))"
proof -
  have "deref s fmt \<noteq> NUL"
    using assms by (simp add: deref_NUL_iff)
  then show ?thesis
    by (simp add: findFormatSpecEnd_def findFormatSpecEnd_for_eq [OF assms(1)])
qed








section \<open>The stream state a format spec sets\<close>

lemma isLetter_facts:
  "isLetter ch \<Longrightarrow> \<not> isFlag ch \<and> \<not> isdigit ch \<and> ch \<noteq> CHR ''*'' \<and> ch \<noteq> CHR ''.'' \<and> ch \<noteq> CHR ''-'' \<and> ch \<noteq> NUL"
  by (auto simp: isLetter_def isFlag_def isdigit_def less_eq_char_def)

lemma isLengthModifier_isLetter: "isLengthModifier ch \<Longrightarrow> isLetter ch"
  by (auto simp: isLetter_def isLengthModifier_def less_eq_char_def)

lemma isdigit_facts:
  "isdigit ch \<Longrightarrow> ch \<noteq> CHR ''*'' \<and> ch \<noteq> CHR ''.'' \<and> ch \<noteq> CHR ''-'' \<and> \<not> isLetter ch"
  by (auto simp: isLetter_def isdigit_def less_eq_char_def)

lemma first_append: "first (xs @ r) = (if xs = [] then first r else first xs)"
  by (cases xs) simp_all

lemma parseFlags_run:
  assumes "drop c s = fs @ r" "list_all isFlag fs" "\<not> isFlag (first r)"
  shows "parseFlags s c out ex =
     (c + length fs, fst (applyFlags fs (out, ex)), snd (applyFlags fs (out, ex)))"
  by (simp add: parseFlags_eq assms takeWhile_run split: prod.splits)

lemma skipLengthModifier_run:
  assumes "drop c s = lm @ r" "list_all isLengthModifier lm" "\<not> isLengthModifier (first r)"
  shows "skipLengthModifier s c = c + length lm"
  by (simp add: skipLengthModifier_eq assms takeWhile_run)

lemma parseIntAndAdvance_run:
  assumes "drop c s = ds @ r" "list_all isdigit ds" "\<not> isdigit (first r)" "decimal ds \<le> INT_MAX"
  shows "parseIntAndAdvance s c = Some (decimal ds, c + length ds)"
  using assms(4) by (simp add: parseIntAndAdvance_eq assms(1-3) takeWhile_run Let_def)

lemma parseWidth_run:
  assumes "drop c s = ws @ r" "list_all isdigit ws" "\<not> isdigit (first r)" "first r \<noteq> CHR ''*''"
    "decimal ws \<le> INT_MAX"
  shows "parseWidth h s c m =
     Returned (if ws = [] then m else on_stream (\<lambda>out. out\<lparr>width := decimal ws\<rparr>) m)
       (c + length ws, ws \<noteq> [])"
proof (cases ws)
  case Nil
  then have "deref s c = first r" using assms(1) by (simp add: deref_first)
  then show ?thesis
    using Nil assms(3,4) by (simp add: parseWidth_def)
next
  case (Cons d ds)
  then have "deref s c = d" "isdigit d" using assms(1,2) by (simp_all add: deref_first)
  moreover have "deref s (c + length ws) = first r"
    using drop_add_append [OF assms(1)] by (simp add: deref_first)
  ultimately show ?thesis
    using Cons assms(4) parseIntAndAdvance_run [OF assms(1,2,3,5)]
    by (simp add: parseWidth_def)
qed

lemma parsePrecision_run:
  assumes "drop c s = ps @ r" "isPrecision ps" "\<not> isdigit (first r)" "first r \<noteq> CHR ''*''"
    "first r \<noteq> CHR ''.''" "first r \<noteq> CHR ''-''"
    "decimal (precisionDigits ps) \<le> INT_MAX"
  shows "parsePrecision h s c m =
     Returned (case precisionOf ps of None \<Rightarrow> m
               | Some p \<Rightarrow> on_stream (\<lambda>out. out\<lparr>precision := p\<rparr>) m)
       (c + length ps, ps \<noteq> [])"
proof (cases ps)
  case Nil
  then have "deref s c = first r" using assms(1) by (simp add: deref_first)
  then show ?thesis
    using Nil assms(5) by (simp add: parsePrecision_def)
next
  case (Cons p ds)
  then have p: "p = CHR ''.''" using assms(2) by simp
  have d0: "deref s c = CHR ''.''" using assms(1) Cons p by (simp add: deref_first)
  have dr1: "drop (c + 1) s = ds @ r"
    using drop_add_append [of c s "[p]" "ds @ r"] assms(1) Cons by simp
  show ?thesis
  proof (cases ds)
    case Nil
    then have "deref s (c + 1) = first r" using dr1 by (simp add: deref_first)
    then show ?thesis
      using Nil Cons d0 assms(3,4,6) by (simp add: parsePrecision_def)
  next
    case ds: (Cons d ds')
    have d1: "deref s (c + 1) = d" using dr1 ds by (simp add: deref_first)
    show ?thesis
    proof (cases "d = CHR ''-''")
      case True
      have dr2: "drop (c + 2) s = ds' @ r"
        using drop_add_append [of "c + 1" s "[d]" "ds' @ r"] dr1 ds by (simp add: add.assoc)
      have dig: "list_all isdigit ds'" and dec: "decimal ds' \<le> INT_MAX"
        using assms(2,7) Cons ds True by simp_all
      have "\<not> isdigit d" using True by (simp add: isdigit_def less_eq_char_def)
      then show ?thesis
        using True Cons ds d0 d1 parseIntAndAdvance_run [OF dr2 dig assms(3) dec]
        by (simp add: parsePrecision_def)
    next
      case False
      have dig: "list_all isdigit ds" and dec: "decimal ds \<le> INT_MAX"
        using assms(2,7) Cons ds False by simp_all
      then have "isdigit d" using ds by simp
      then have "d \<noteq> CHR ''*''" using isdigit_facts by blast
      then show ?thesis
        using False Cons ds d0 d1 \<open>isdigit d\<close> parseIntAndAdvance_run [OF dr1 dig assms(3) dec]
        by (simp add: parsePrecision_def)
    qed
  qed
qed


lemma first_spec_rest:
  assumes "isSpec fs ws ps lm t"
  shows "isLetter (first (lm @ t # post))"
    and "\<not> isLengthModifier (first (t # post))"
    and "\<not> isdigit (first (ps @ lm @ t # post))"
    and "first (ps @ lm @ t # post) \<noteq> CHR ''*''"
    and "\<not> isFlag (first (ws @ ps @ lm @ t # post))"
proof -
  have t: "isLetter t" "\<not> isLengthModifier t" and lm: "list_all isLengthModifier lm"
    and ps: "isPrecision ps" and ws: "list_all isdigit ws" "\<not> isFlag (first ws)"
    using assms by (simp_all add: isSpec_def)
  show 1: "isLetter (first (lm @ t # post))"
    using t lm by (cases lm) (simp_all add: isLengthModifier_isLetter)
  show "\<not> isLengthModifier (first (t # post))" using t by simp
  have p: "first ps = CHR ''.''" if "ps \<noteq> []" using ps that by (cases ps) simp_all
  have fp: "first (ps @ lm @ t # post) = (if ps = [] then first (lm @ t # post) else CHR ''.'')"
    using p by (simp add: first_append)
  show "\<not> isdigit (first (ps @ lm @ t # post))"
    using isLetter_facts [OF 1] by (simp add: fp isdigit_def less_eq_char_def)
  show "first (ps @ lm @ t # post) \<noteq> CHR ''*''"
    using isLetter_facts [OF 1] by (simp add: fp)
  have "\<not> isFlag (first (ps @ lm @ t # post))"
    using isLetter_facts [OF 1] by (simp add: fp isFlag_def)
  then show "\<not> isFlag (first (ws @ ps @ lm @ t # post))"
    using ws(2) by (simp add: first_append [of ws])
qed

lemma streamStateFromFormat_spec:
  assumes dr: "drop fmtStart s = fs @ ws @ ps @ lm @ t # post"
    and sp: "isSpec fs ws ps lm t"
    and fe: "fmtEnd = fmtStart + length (fs @ ws @ ps @ lm) + 1"
  shows "streamStateFromFormat h s fmtStart fmtEnd m =
     andThen
       (switchType h t (ps \<noteq> []) (snd (applyFlags fs (resetState (stream m), 0)))
          (m\<lparr>stream := parsedState fs ws ps (stream m)\<rparr>))
       (\<lambda>m (extraFlags, intConversion).
          Returned (if intConversion \<and> ps \<noteq> [] \<and> ws = []
                    then on_stream precisionAsWidth m else m) extraFlags)"
proof -
  note fr = first_spec_rest [OF sp, of post]
  have sp': "list_all isFlag fs" "list_all isdigit ws" "decimal ws \<le> INT_MAX" "isPrecision ps"
    "decimal (precisionDigits ps) \<le> INT_MAX" "list_all isLengthModifier lm"
    using sp by (simp_all add: isSpec_def)
  define c1 where "c1 = fmtStart + length fs"
  define c2 where "c2 = c1 + length ws"
  define c3 where "c3 = c2 + length ps"
  define c4 where "c4 = c3 + length lm"
  define o1 where "o1 = fst (applyFlags fs (resetState (stream m), 0))"
  define ex where "ex = snd (applyFlags fs (resetState (stream m), 0))"
  define m2 where "m2 = (if ws = [] then m\<lparr>stream := o1\<rparr>
     else on_stream (\<lambda>out. out\<lparr>width := decimal ws\<rparr>) (m\<lparr>stream := o1\<rparr>))"
  define m3 where "m3 = (case precisionOf ps of None \<Rightarrow> m2
               | Some p \<Rightarrow> on_stream (\<lambda>out. out\<lparr>precision := p\<rparr>) m2)"
  have d1: "drop c1 s = ws @ ps @ lm @ t # post"
    unfolding c1_def by (rule drop_add_append [OF dr])
  have d2: "drop c2 s = ps @ lm @ t # post"
    unfolding c2_def by (rule drop_add_append [OF d1])
  have d3: "drop c3 s = lm @ t # post"
    unfolding c3_def by (rule drop_add_append [OF d2])
  have d4: "drop c4 s = t # post"
    unfolding c4_def by (rule drop_add_append [OF d3])
  have l: "isLetter (first (lm @ t # post))" by (rule fr(1))
  have pf: "parseFlags s fmtStart (resetState (stream m)) 0 = (c1, o1, ex)"
    unfolding c1_def o1_def ex_def by (rule parseFlags_run [OF dr sp'(1) fr(5)])
  have pw: "parseWidth h s c1 (m\<lparr>stream := o1\<rparr>) = Returned m2 (c2, ws \<noteq> [])"
    unfolding c2_def m2_def by (rule parseWidth_run [OF d1 sp'(2) fr(3) fr(4) sp'(3)])
  have pp: "parsePrecision h s c2 m2 = Returned m3 (c3, ps \<noteq> [])"
    unfolding c3_def m3_def
    using isLetter_facts [OF l] by (intro parsePrecision_run [OF d2 sp'(4) _ _ _ _ sp'(5)]) simp_all
  have sl: "skipLengthModifier s c3 = c4"
    unfolding c4_def by (rule skipLengthModifier_run [OF d3 sp'(6) fr(2)])
  have c4: "c4 < fmtEnd" "c4 \<le> fmtEnd"
    by (simp_all add: fe c4_def c3_def c2_def c1_def)
  have ct: "conversionType s c4 fmtEnd = t"
    using c4 d4 by (simp add: conversionType_def deref_first)
  have m3: "m3 = m\<lparr>stream := parsedState fs ws ps (stream m)\<rparr>"
    by (simp add: m3_def m2_def parsedState_def o1_def on_stream_def Let_def split: option.splits)
  show ?thesis
    unfolding streamStateFromFormat_def
    by (simp add: pf pw pp sl ct c4 m3 [symmetric] ex_def [symmetric] Let_def)
qed

section \<open>Flags\<close>

lemma applyFlags_snoc: "applyFlags (fs @ [ch]) st = applyFlag (applyFlags fs st) ch"
  by (simp add: applyFlags_def)

lemma ostream_eqI:
  "width a = width b \<Longrightarrow> precision a = precision b \<Longrightarrow> fill a = fill b \<Longrightarrow>
   flags a = flags b \<Longrightarrow> written a = written b \<Longrightarrow> (a :: ostream) = b"
  by simp

lemma applyFlag_flagsContext:
  assumes "ios_left \<notin> flags out" "ios_showpos \<notin> flags out" "isFlag ch"
  shows "applyFlag (flagsContext S out) ch = flagsContext (insert ch S) out"
proof -
  consider "ch = CHR ''#''" | "ch = CHR ''0''" | "ch = CHR ''-''" | "ch = CHR '' ''" | "ch = CHR ''+''"
    using assms(3) by (auto simp: isFlag_def)
  then show ?thesis
  proof cases
    case 1
    then show ?thesis
      by (auto simp: applyFlag_def switchFlag_def flagsContext_def setf_def intro!: ostream_eqI)
  next
    case 2
    then show ?thesis
      using assms(1)
      by (auto simp: applyFlag_def switchFlag_def flagsContext_def setf_mask_def adjustfield_def
          intro!: ostream_eqI)
  next
    case 3
    then show ?thesis
      by (auto simp: applyFlag_def switchFlag_def flagsContext_def setf_mask_def adjustfield_def
          intro!: ostream_eqI)
  next
    case 4
    then show ?thesis
      using assms(2)
      by (auto simp: applyFlag_def switchFlag_def flagsContext_def adjustfield_def)
  next
    case 5
    then show ?thesis
      by (auto simp: applyFlag_def switchFlag_def flagsContext_def setf_def intro!: ostream_eqI)
  qed
qed

lemma applyFlags_flagsContext:
  assumes "ios_left \<notin> flags out" "ios_showpos \<notin> flags out"
  shows "list_all isFlag fs \<Longrightarrow> applyFlags fs (out, 0) = flagsContext (set fs) out"
proof (induction fs rule: rev_induct)
  case Nil
  show ?case by (simp add: applyFlags_def flagsContext_def)
next
  case (snoc ch fs)
  then show ?case
    by (simp add: applyFlags_snoc applyFlag_flagsContext [OF assms] Un_commute)
qed


lemma resetState_flags [simp]:
  "ios_left \<notin> flags (resetState out)" "ios_showpos \<notin> flags (resetState out)"
  by (simp_all add: resetState_def unsetf_def adjustfield_def)

lemma applyFlags_reset:
  "list_all isFlag fs \<Longrightarrow>
   applyFlags fs (resetState out, 0) = flagsContext (set fs) (resetState out)"
  by (rule applyFlags_flagsContext) simp_all

text \<open>
  C8. Two format specs that differ only in their flags, the two runs of flags having the
  same set of characters (in any order, each any number of times), set the same stream
  state and return the same extra flags. What the flags come to is \<open>flagsContext\<close>:
  \<open>0\<close> gives zero fill and internal alignment unless \<open>-\<close> is among them, \<open>-\<close> gives
  left alignment and the space as fill, the space sets the extra flag unless \<open>+\<close> is
  among them, and \<open>+\<close> sets \<^verbatim>\<open>showpos\<close>.
\<close>

theorem flags_order_independent:
  assumes "isSpec fs ws ps lm t" and "list_all isFlag fs'" and "set fs' = set fs"
    and "drop fmtStart s = fs @ ws @ ps @ lm @ t # post"
    and "drop fmtStart' s' = fs' @ ws @ ps @ lm @ t # post'"
  shows "streamStateFromFormat h s' fmtStart' (fmtStart' + length (fs' @ ws @ ps @ lm) + 1) m =
         streamStateFromFormat h s fmtStart (fmtStart + length (fs @ ws @ ps @ lm) + 1) m \<and>
         snd (parseFlags s fmtStart (resetState (stream m)) 0) =
           flagsContext (set fs) (resetState (stream m)) \<and>
         snd (parseFlags s' fmtStart' (resetState (stream m)) 0) =
           flagsContext (set fs) (resetState (stream m))"
proof -
  have fs: "list_all isFlag fs" using assms(1) by (simp add: isSpec_def)
  have sp': "isSpec fs' ws ps lm t" using assms(1,2) by (simp add: isSpec_def)
  have af: "applyFlags fs' (resetState (stream m), 0) = applyFlags fs (resetState (stream m), 0)"
    by (simp add: applyFlags_reset fs assms(2,3))
  then have ps: "parsedState fs' ws ps (stream m) = parsedState fs ws ps (stream m)"
    by (simp add: parsedState_def)
  have 1: "streamStateFromFormat h s' fmtStart' (fmtStart' + length (fs' @ ws @ ps @ lm) + 1) m =
         streamStateFromFormat h s fmtStart (fmtStart + length (fs @ ws @ ps @ lm) + 1) m"
    by (simp only: streamStateFromFormat_spec [OF assms(4) assms(1) refl]
        streamStateFromFormat_spec [OF assms(5) sp' refl] af ps)
  have 2: "snd (parseFlags s fmtStart (resetState (stream m)) 0) =
           flagsContext (set fs) (resetState (stream m))"
    using parseFlags_run [OF assms(4) fs first_spec_rest(5) [OF assms(1)]]
    by (simp add: applyFlags_reset fs)
  have 3: "snd (parseFlags s' fmtStart' (resetState (stream m)) 0) =
           flagsContext (set fs) (resetState (stream m))"
    using parseFlags_run [OF assms(5) assms(2) first_spec_rest(5) [OF sp']]
    by (simp add: applyFlags_reset assms(2,3))
  show ?thesis using 1 2 3 by simp
qed

theorem flags_order_independent_witness:
  "streamStateFromFormat hook_leaves ''%+ 0--5d'' 1 8 start =
   streamStateFromFormat hook_leaves ''%-0 +5d|'' 1 7 start \<and>
   snd (parseFlags ''%+ 0--5d'' 1 (resetState (stream start)) 0) =
     (ostringstream\<lparr>flags := {ios_skipws, ios_left, ios_showpos}\<rparr>, 0)"
proof -
  have sp: "isSpec ''-0 +'' ''5'' [] [] CHR ''d''" "list_all isFlag ''+ 0--''"
    by (simp_all add: isSpec_def isFlag_def isdigit_def isLetter_def isLengthModifier_def
        less_eq_char_def decimal_def INT_MAX_def)
  have fc: "flagsContext (set ''-0 +'') (resetState (stream start)) =
     (ostringstream\<lparr>flags := {ios_skipws, ios_left, ios_showpos}\<rparr>, 0)"
    by code_simp
  show ?thesis
    using flags_order_independent [of "''-0 +''" "''5''" "[]" "[]" "CHR ''d''" "''+ 0--''" 1
        "''%-0 +5d|''" "''|''" 1 "''%+ 0--5d''" "[]" hook_leaves start] sp fc
    by (simp add: insert_commute eval_nat_numeral)
qed

section \<open>Precision as the width of an integer\<close>

lemma stream_on_stream [simp]: "stream (on_stream f m) = f (stream m)"
  by (simp add: on_stream_def)

lemma parsedState_fields:
  "width (parsedState fs ws ps out) = (if ws = [] then 0 else decimal ws)"
  "precision (parsedState fs ws ps out) = (case precisionOf ps of None \<Rightarrow> 6 | Some p \<Rightarrow> p)"
  "written (parsedState fs ws ps out) = written out"
proof -
  have a: "width (fst (applyFlags fs st)) = width (fst st) \<and>
           precision (fst (applyFlags fs st)) = precision (fst st) \<and>
           written (fst (applyFlags fs st)) = written (fst st)" for st
    unfolding applyFlags_def
    by (induction fs arbitrary: st)
       (auto simp: applyFlag_def switchFlag_def setf_def setf_mask_def split: option.splits if_splits)
  show "width (parsedState fs ws ps out) = (if ws = [] then 0 else decimal ws)"
    "precision (parsedState fs ws ps out) = (case precisionOf ps of None \<Rightarrow> 6 | Some p \<Rightarrow> p)"
    "written (parsedState fs ws ps out) = written out"
    using a [of "(resetState out, 0)"]
    by (simp_all add: parsedState_def Let_def resetState_def unsetf_def split: option.splits)
qed

lemma precisionAsWidth_fields:
  "width (precisionAsWidth out) = precision out"
  "precision (precisionAsWidth out) = precision out"
  "fill (precisionAsWidth out) = CHR ''0''"
  "flags (precisionAsWidth out) \<inter> adjustfield = {ios_internal}"
  "written (precisionAsWidth out) = written out"
  by (auto simp: precisionAsWidth_def setf_mask_def adjustfield_def)

lemma switchType_int:
  assumes "t \<in> set ''udioxXp''"
  shows "\<exists>f. (\<forall>ex m. switchType h t p ex m = Returned (on_stream f m) (ex, True)) \<and>
             (\<forall>out. precision (f out) = precision out)"
proof -
  consider "t = CHR ''u''" | "t = CHR ''d''" | "t = CHR ''i''" | "t = CHR ''o''"
    | "t = CHR ''x''" | "t = CHR ''X''" | "t = CHR ''p''"
    using assms by auto
  then show ?thesis
  proof cases
    case 6
    then show ?thesis
      by (intro exI [of _ "setf_mask {ios_hex} basefield \<circ> setf {ios_uppercase}"])
         (simp add: switchType_def setf_mask_def setf_def)
  next
    case 4
    then show ?thesis
      by (intro exI [of _ "setf_mask {ios_oct} basefield"]) (simp add: switchType_def setf_mask_def)
  next
    case 5
    then show ?thesis
      by (intro exI [of _ "setf_mask {ios_hex} basefield"]) (simp add: switchType_def setf_mask_def)
  next
    case 7
    then show ?thesis
      by (intro exI [of _ "setf_mask {ios_hex} basefield"]) (simp add: switchType_def setf_mask_def)
  qed (intro exI [of _ "setf_mask {ios_dec} basefield"], simp add: switchType_def setf_mask_def)+
qed

text \<open>
  C5. For a format spec with a precision, no width, and an integer conversion (\<open>u\<close>,
  \<open>d\<close>, \<open>i\<close>, \<open>o\<close>, \<open>x\<close>, \<open>X\<close>, and \<open>p\<close>, which the switch treats alike),
  \<open>streamStateFromFormat\<close> returns with the width equal to the precision, the fill
  character \<open>0\<close> and internal alignment, whatever the flags were. So \<open>%.4d\<close> with 7
  gives \<open>0007\<close>.
\<close>

theorem precision_as_width:
  assumes "drop fmtStart s = fs @ ps @ lm @ t # post" and "isSpec fs [] ps lm t"
    and "precisionOf ps = Some p" and "t \<in> set ''udioxXp''"
  shows "(\<exists>m' extraFlags.
            streamStateFromFormat h s fmtStart (fmtStart + length (fs @ ps @ lm) + 1) m =
              Returned m' extraFlags \<and>
            reasons m' = reasons m \<and>
            width (stream m') = p \<and> precision (stream m') = p \<and>
            fill (stream m') = CHR ''0'' \<and> flags (stream m') \<inter> adjustfield = {ios_internal}) \<and>
         format hook_leaves ''%.4d'' 0 [IntArg 7] start =
           Returned (start\<lparr>stream := ostringstream\<lparr>written := ''0007''\<rparr>\<rparr>) () \<and>
         format hook_returns ''%.4d'' 0 [IntArg 7] start =
           Returned (start\<lparr>stream := ostringstream\<lparr>written := ''0007''\<rparr>\<rparr>) ()"
proof (intro conjI)
  have ne: "ps \<noteq> []" using assms(3) by auto
  obtain f where f: "\<And>ex m. switchType h t True ex m = Returned (on_stream f m) (ex, True)"
      "\<And>out. precision (f out) = precision out"
    using switchType_int [OF assms(4), of h True] by blast
  show "\<exists>m' extraFlags.
            streamStateFromFormat h s fmtStart (fmtStart + length (fs @ ps @ lm) + 1) m =
              Returned m' extraFlags \<and>
            reasons m' = reasons m \<and>
            width (stream m') = p \<and> precision (stream m') = p \<and>
            fill (stream m') = CHR ''0'' \<and> flags (stream m') \<inter> adjustfield = {ios_internal}"
    using streamStateFromFormat_spec [of fmtStart s fs "[]" ps lm t post, OF _ assms(2) refl, of h m] assms(1,3) ne
    by (simp add: f precisionAsWidth_fields parsedState_fields)
next
  show "format hook_leaves ''%.4d'' 0 [IntArg 7] start =
           Returned (start\<lparr>stream := ostringstream\<lparr>written := ''0007''\<rparr>\<rparr>) ()"
    by code_simp
next
  show "format hook_returns ''%.4d'' 0 [IntArg 7] start =
           Returned (start\<lparr>stream := ostringstream\<lparr>written := ''0007''\<rparr>\<rparr>) ()"
    by code_simp
qed


theorem precision_as_width_witness:
  "\<exists>m' extraFlags.
     streamStateFromFormat hook_leaves ''%-.3lx'' 1 6 start = Returned m' extraFlags \<and>
     reasons m' = [] \<and> width (stream m') = 3 \<and> precision (stream m') = 3 \<and>
     fill (stream m') = CHR ''0'' \<and> flags (stream m') \<inter> adjustfield = {ios_internal}"
proof -
  have sp: "isSpec ''-'' [] ''.3'' ''l'' CHR ''x''"
    by (simp add: isSpec_def isFlag_def isdigit_def isLetter_def isLengthModifier_def
        less_eq_char_def decimal_def INT_MAX_def)
  have p: "precisionOf ''.3'' = Some 3"
    by (simp add: decimal_def)
  show ?thesis
    using precision_as_width [of 1 "''%-.3lx''" "''-''" "''.3''" "''l''" "CHR ''x''" "[]" 3
        hook_leaves start] sp p
    by (simp add: start_def eval_nat_numeral)
qed

section \<open>A conversion letter the switch does not know\<close>

lemma isPrecision_not_letter: "isPrecision ps \<Longrightarrow> ch \<in> set ps \<Longrightarrow> \<not> isLetter ch"
proof (cases ps)
  case Nil
  assume "ch \<in> set ps" then show ?thesis using Nil by simp
next
  case (Cons p ds)
  assume a: "isPrecision ps" "ch \<in> set ps"
  have p: "p = CHR ''.''" using a(1) Cons by simp
  show ?thesis
  proof (cases ds)
    case Nil
    then show ?thesis using a Cons p by (auto simp: isLetter_def less_eq_char_def)
  next
    case ds: (Cons d ds')
    have "ch = CHR ''.'' \<or> ch = CHR ''-'' \<or> isdigit ch"
      using a Cons ds p by (auto simp: list_all_iff split: if_splits)
    then show ?thesis
      using isdigit_facts [of ch] by (auto simp: isLetter_def less_eq_char_def)
  qed
qed

lemma isSpec_body_not_endsSpec:
  assumes "isSpec fs ws ps lm t"
  shows "\<forall>ch\<in>set (fs @ ws @ ps @ lm). \<not> endsSpec ch" and "endsSpec t"
proof -
  show "endsSpec t" using assms by (simp add: isSpec_def endsSpec_def)
  show "\<forall>ch\<in>set (fs @ ws @ ps @ lm). \<not> endsSpec ch"
  proof
    fix ch assume "ch \<in> set (fs @ ws @ ps @ lm)"
    then consider "ch \<in> set fs" | "ch \<in> set ws" | "ch \<in> set ps" | "ch \<in> set lm" by auto
    then show "\<not> endsSpec ch"
    proof cases
      case 1
      then have "isFlag ch" using assms by (simp add: isSpec_def list_all_iff)
      then show ?thesis using isLetter_facts [of ch] by (auto simp: endsSpec_def)
    next
      case 2
      then have "isdigit ch" using assms by (simp add: isSpec_def list_all_iff)
      then show ?thesis using isdigit_facts [of ch] by (auto simp: endsSpec_def)
    next
      case 3
      then show ?thesis
        using assms isPrecision_not_letter [of ps ch] by (simp add: isSpec_def endsSpec_def)
    next
      case 4
      then show ?thesis using assms by (simp add: isSpec_def list_all_iff endsSpec_def)
    qed
  qed
qed

lemma findFormatSpecEnd_spec:
  assumes "NUL \<notin> set s" and "drop fmtStart s = fs @ ws @ ps @ lm @ t # post"
    and "isSpec fs ws ps lm t"
  shows "findFormatSpecEnd h s fmtStart m = Returned m (fmtStart + length (fs @ ws @ ps @ lm) + 1)"
proof -
  note b = isSpec_body_not_endsSpec [OF assms(3)]
  have d: "drop fmtStart s = (fs @ ws @ ps @ lm) @ t # post" using assms(2) by simp
  have ne: "drop fmtStart s \<noteq> []" using assms(2) by simp
  show ?thesis
    unfolding findFormatSpecEnd_inside [OF assms(1) ne] d
    by (simp only: specLength_terminated [OF b] takeWhile_not_endsSpec [OF b])
       simp
qed

lemma specChar_spec:
  assumes "drop fmtStart s = fs @ ws @ ps @ lm @ t # post"
  shows "specChar s (fmtStart + length (fs @ ws @ ps @ lm) + 1) = Some t"
proof -
  have "drop fmtStart s = (fs @ ws @ ps @ lm) @ t # post" using assms by simp
  from drop_add_append [OF this] show ?thesis
    by (simp add: specChar_def deref_first)
qed

lemma switchType_unknown:
  "t \<notin> set ''diouxXeEfFgGaAcspn'' \<Longrightarrow> switchType h t p ex m = Returned m (ex, False)"
  by (simp add: switchType_def)

lemma formatValue_generic:
  assumes "specChar s fmtEnd = Some t" and "t \<notin> set ''diouxXcp''"
  shows "formatValue s fmtBegin fmtEnd v out = Some (insert_value v out)"
  using assms
  by (cases v)
     (simp_all add: formatValue_def formatValue_template_def formatValue_voidPtr_def insert_char_def)

lemma applyFlags_flags_kept:
  "flags (fst (applyFlags fs st)) \<inter> (basefield \<union> floatfield \<union> {ios_uppercase}) =
   flags (fst st) \<inter> (basefield \<union> floatfield \<union> {ios_uppercase})"
  unfolding applyFlags_def
proof (induction fs arbitrary: st)
  case Nil
  show ?case by simp
next
  case (Cons ch fs)
  have "flags (fst (applyFlag st ch)) \<inter> (basefield \<union> floatfield \<union> {ios_uppercase}) =
        flags (fst st) \<inter> (basefield \<union> floatfield \<union> {ios_uppercase})"
    by (auto simp: applyFlag_def switchFlag_def setf_def setf_mask_def basefield_def floatfield_def
        adjustfield_def split: option.splits if_splits)
  then show ?case
    using Cons.IH [of "applyFlag st ch"] by simp
qed

lemma parsedState_base_cleared:
  "flags (parsedState fs ws ps out) \<inter> (basefield \<union> floatfield \<union> {ios_uppercase}) = {}"
proof -
  have "flags (resetState out) \<inter> (basefield \<union> floatfield \<union> {ios_uppercase}) = {}"
    by (auto simp: resetState_def unsetf_def)
  then show ?thesis
    using applyFlags_flags_kept [of fs "(resetState out, 0)"]
    by (simp add: parsedState_def Let_def split: option.splits)
qed


lemma Flag_values [simp]:
  "Flag_SpacePadPositive \<noteq> 0" "Flag_TruncateToPrecision \<noteq> 0"
  "Flag_SpacePadPositive AND Flag_TruncateToPrecision = 0"
  "Flag_TruncateToPrecision AND Flag_SpacePadPositive = 0"
  "Flag_SpacePadPositive AND Flag_SpacePadPositive = Flag_SpacePadPositive"
  "Flag_TruncateToPrecision AND Flag_TruncateToPrecision = Flag_TruncateToPrecision"
  by (simp_all add: Flag_SpacePadPositive_def Flag_TruncateToPrecision_def)

lemma bufferedResult_generic:
  assumes "extraFlags AND Flag_TruncateToPrecision = 0"
    and "formatValue s fmtBegin fmtEnd v
           (if extraFlags AND Flag_SpacePadPositive \<noteq> 0
            then setf {ios_showpos} (copyfmt out ostringstream) else copyfmt out ostringstream) = Some tmp"
  shows "bufferedResult s fmtBegin fmtEnd v extraFlags out =
     Some (if extraFlags AND Flag_SpacePadPositive \<noteq> 0
           then spacePadPositive (written tmp) else written tmp)"
  using assms by (simp add: bufferedResult_def Let_def)

text \<open>
  C10. A format spec that ends in a letter which is neither a length modifier nor one of
  \<open>diouxXeEfFgGaAcspn\<close> is read without the hook being invoked: the letter ends the
  spec, the stream has the flags, width and precision of the spec with the base, float
  format and upper-case flags cleared as the reset left them, and the value is formatted
  by \<^verbatim>\<open>out << value\<close>. So \<open>%q\<close> and \<open>%v\<close> format as \<open>%s\<close> would.
\<close>

theorem unknown_conversion:
  assumes "NUL \<notin> set s" and "drop fmtStart s = fs @ ws @ ps @ lm @ t # post"
    and "isSpec fs ws ps lm t" and "t \<notin> set ''diouxXeEfFgGaAcspn''"
    and "fmtEnd = fmtStart + length (fs @ ws @ ps @ lm) + 1"
  shows "findFormatSpecEnd h s fmtStart m = Returned m fmtEnd \<and>
         streamStateFromFormat h s fmtStart fmtEnd m =
           Returned (m\<lparr>stream := parsedState fs ws ps (stream m)\<rparr>)
             (snd (flagsContext (set fs) (resetState (stream m)))) \<and>
         flags (parsedState fs ws ps (stream m)) \<inter>
           (basefield \<union> floatfield \<union> {ios_uppercase}) = {} \<and>
         formatValue s fmtStart fmtEnd v out = Some (insert_value v out) \<and>
         (\<exists>out'. formatValueBasic h s fmtStart fmtEnd v m = Returned (m\<lparr>stream := out'\<rparr>) ()) \<and>
         format hook_leaves ''[%q]'' 0 [StringArg ''x''] start =
           Returned (start\<lparr>stream := ostringstream\<lparr>written := ''[x]''\<rparr>\<rparr>) () \<and>
         format hook_leaves ''%5v'' 0 [IntArg 3] start =
           Returned (start\<lparr>stream := ostringstream\<lparr>written := ''    3''\<rparr>\<rparr>) ()"
proof -
  have fs: "list_all isFlag fs" using assms(3) by (simp add: isSpec_def)
  have t: "t \<notin> set ''diouxXcp''" using assms(4) by auto
  have sc: "specChar s fmtEnd = Some t"
    unfolding assms(5) by (rule specChar_spec [OF assms(2)])
  have 1: "findFormatSpecEnd h s fmtStart m = Returned m fmtEnd"
    unfolding assms(5) by (rule findFormatSpecEnd_spec [OF assms(1,2,3)])
  have 2: "streamStateFromFormat h s fmtStart fmtEnd m =
           Returned (m\<lparr>stream := parsedState fs ws ps (stream m)\<rparr>)
             (snd (flagsContext (set fs) (resetState (stream m))))"
    by (simp add: streamStateFromFormat_spec [OF assms(2,3,5)] switchType_unknown [OF assms(4)]
        applyFlags_reset [OF fs])
  note 3 = parsedState_base_cleared [of fs ws ps "stream m"]
  have 4: "formatValue s fmtStart fmtEnd v out = Some (insert_value v out)" for out
    by (rule formatValue_generic [OF sc t])
  define ex where "ex = snd (flagsContext (set fs) (resetState (stream m)))"
  have ex: "ex = 0 \<or> ex = Flag_SpacePadPositive"
    by (simp add: ex_def flagsContext_def)
  have "\<exists>out'. (if ex = 0 then formatValue s fmtStart fmtEnd v (parsedState fs ws ps (stream m))
                 else formatBuffered s fmtStart fmtEnd v ex (parsedState fs ws ps (stream m))) = Some out'"
  proof (cases "ex = 0")
    case True
    then show ?thesis by (simp add: 4)
  next
    case False
    then have e: "ex = Flag_SpacePadPositive" using ex by simp
    show ?thesis
      using False by (simp add: formatBuffered_def bufferedResult_generic [OF _ 4] e)
  qed
  then have 5: "\<exists>out'. formatValueBasic h s fmtStart fmtEnd v m = Returned (m\<lparr>stream := out'\<rparr>) ()"
    by (auto simp: formatValueBasic_def Let_def 2 ex_def)
  have 6: "format hook_leaves ''[%q]'' 0 [StringArg ''x''] start =
           Returned (start\<lparr>stream := ostringstream\<lparr>written := ''[x]''\<rparr>\<rparr>) ()"
    by code_simp
  have 7: "format hook_leaves ''%5v'' 0 [IntArg 3] start =
           Returned (start\<lparr>stream := ostringstream\<lparr>written := ''    3''\<rparr>\<rparr>) ()"
    by code_simp
  show ?thesis using 1 2 3 4 5 6 7 by simp
qed

theorem unknown_conversion_witness:
  "findFormatSpecEnd hook_leaves ''%-8.2lq|'' 1 start = Returned start 7 \<and>
   streamStateFromFormat hook_leaves ''%-8.2lq|'' 1 7 start =
     Returned (start\<lparr>stream := parsedState ''-'' ''8'' ''.2'' (stream start)\<rparr>)
       (snd (flagsContext (set ''-'') (resetState (stream start)))) \<and>
   formatValue ''%-8.2lq|'' 1 7 (IntArg 5) ostringstream = Some (insert_value (IntArg 5) ostringstream)"
proof -
  have sp: "isSpec ''-'' ''8'' ''.2'' ''l'' CHR ''q''"
    by (simp add: isSpec_def isFlag_def isdigit_def isLetter_def isLengthModifier_def
        less_eq_char_def decimal_def INT_MAX_def)
  show ?thesis
    using unknown_conversion [of "''%-8.2lq|''" 1 "''-''" "''8''" "''.2''" "''l''" "CHR ''q''" "''|''" 7
        hook_leaves start "IntArg 5" ostringstream] sp
    by simp
qed

section \<open>The space flag\<close>


lemma Flag_or_and [simp]:
  "(Flag_SpacePadPositive OR Flag_TruncateToPrecision) AND Flag_TruncateToPrecision
     = Flag_TruncateToPrecision"
  "(Flag_SpacePadPositive OR Flag_TruncateToPrecision) AND Flag_SpacePadPositive
     = Flag_SpacePadPositive"
  "(0 OR Flag_TruncateToPrecision) AND Flag_TruncateToPrecision = Flag_TruncateToPrecision"
  by (simp_all add: Flag_SpacePadPositive_def Flag_TruncateToPrecision_def)






section \<open>Truncation to the precision\<close>

lemma formatCStringTruncate_while_eq:
  "NUL \<notin> set str \<Longrightarrow> len \<le> length str \<Longrightarrow>
   formatCStringTruncate_while str truncLen len = max len (min (nat truncLen) (length str))"
proof (induction str truncLen len rule: formatCStringTruncate_while.induct)
  case (1 val truncLen len)
  show ?case
  proof (cases "int len < truncLen \<and> deref val len \<noteq> NUL")
    case True
    then have lt: "len < length val" by (auto simp: deref_def split: if_splits)
    have "formatCStringTruncate_while val truncLen len = formatCStringTruncate_while val truncLen (len + 1)"
      using True by (subst formatCStringTruncate_while.simps) simp
    also have "\<dots> = max (len + 1) (min (nat truncLen) (length val))"
      using True lt "1.prems" by (intro "1.IH") simp_all
    finally show ?thesis using True lt by (simp add: max_def min_def) linarith
  next
    case False
    then have "formatCStringTruncate_while val truncLen len = len"
      by (subst formatCStringTruncate_while.simps) auto
    moreover have "truncLen \<le> int len \<or> len = length val"
      using False "1.prems" by (auto simp: deref_NUL_iff)
    ultimately show ?thesis by (auto simp: max_def min_def)
  qed
qed

lemma formatCStringTruncate_CString:
  "NUL \<notin> set str \<Longrightarrow>
   formatCStringTruncate (CStringArg a str) truncLen out =
     (out\<lparr>written := written out @ take (nat truncLen) str\<rparr>, True)"
  by (simp add: formatCStringTruncate_while_eq ostream_write_def min_def)

lemma length_spacePadPositive [simp]: "length (spacePadPositive r) = length r"
  by (induction r) simp_all








lemma written_tmpStream [simp]:
  "written (copyfmt out ostringstream) = []"
  "written (setf f out) = written out"
  by (simp_all add: copyfmt_def ostringstream_def setf_def)





section \<open>Narrow characters\<close>









lemma reset_fields [simp]:
  "width (resetState out) = 0" "written (resetState out) = written out"
  "flags (resetState out) \<inter> adjustfield = {}"
  "flags (resetState out) \<inter> basefield = {}"
  by (auto simp: resetState_def unsetf_def)







lemma reset_more [simp]:
  "ios_showpos \<notin> flags (resetState out)" "ios_showbase \<notin> flags (resetState out)"
  "ios_uppercase \<notin> flags (resetState out)"
  by (simp_all add: resetState_def unsetf_def)



lemma base_members [simp]:
  "ios_dec \<in> basefield" "ios_oct \<in> basefield" "ios_hex \<in> basefield"
  "ios_showpos \<notin> basefield" "ios_showbase \<notin> basefield" "ios_uppercase \<notin> basefield"
  by (simp_all add: basefield_def)














end
